theory Spec2Isabelle
  imports Main "HOL-Library.Sublist"
begin

section \<open>Strings of the host language\<close>

text \<open>
  A host string is a list of characters; every character of the compiler's output and of a
  path is taken from the 8-bit range. \<open>split_on\<close> is \<^verbatim>\<open>String.prototype.split\<close> with
  a one-character separator: it keeps empty pieces, and the empty string splits into one
  empty piece.
\<close>

fun split_on :: "char \<Rightarrow> string \<Rightarrow> string list" where
  "split_on c [] = [[]]"
| "split_on c (x # xs) =
     (if x = c then [] # split_on c xs
      else (case split_on c xs of [] \<Rightarrow> [[x]] | l # ls \<Rightarrow> (x # l) # ls))"

text \<open>\<^verbatim>\<open>line.includes(needle)\<close>: the needle occurs as a contiguous piece of the line.\<close>

fun str_includes :: "string \<Rightarrow> string \<Rightarrow> bool" where
  "str_includes [] needle = (needle = [])"
| "str_includes (x # xs) needle = (prefix needle (x # xs) \<or> str_includes xs needle)"

text \<open>
  \<^verbatim>\<open>String.prototype.trim\<close> removes white space at both ends. Within the 8-bit range the
  white space characters are tab, line feed, vertical tab, form feed, carriage return,
  space and the no-break space.
\<close>

definition is_space :: "char \<Rightarrow> bool" where
  "is_space c = (c \<in> set [CHR 0x09, CHR 0x0A, CHR 0x0B, CHR 0x0C, CHR 0x0D, CHR 0x20, CHR 0xA0])"

definition trim :: "string \<Rightarrow> string" where
  "trim s = rev (dropWhile is_space (rev (dropWhile is_space s)))"

text \<open>\<^verbatim>\<open>\d\<close> of a regular expression, and the value of a digit.\<close>

definition is_digit :: "char \<Rightarrow> bool" where
  "is_digit c = (c \<in> set ''0123456789'')"

definition digit_val :: "char \<Rightarrow> nat" where
  "digit_val c = of_char c - 48"

text \<open>
  A number of the host language is a double. The numbers that \<^verbatim>\<open>parseInt\<close> makes of
  a run of digits are the doubles with a natural number as value, and infinity. The value
  of the double nearest to a natural number \<open>v\<close>: below \<open>2 ^ 53\<close> it is \<open>v\<close> itself; above,
  only the leading 53 bits are kept, rounded to the nearest, a tie to the even one; from
  \<open>2 ^ 1024\<close> on the result is infinity.
\<close>

datatype js_number = Number nat | Infinity

fun bit_length :: "nat \<Rightarrow> nat" where
  "bit_length n = (if n = 0 then 0 else Suc (bit_length (n div 2)))"

declare bit_length.simps [simp del]

definition round_to_double :: "nat \<Rightarrow> nat" where
  "round_to_double v =
     (if v < 2 ^ 53 then v
      else (let e = bit_length v - 53;
                q = v div 2 ^ e;
                r = v mod 2 ^ e;
                half = 2 ^ (e - 1);
                q' = (if half < r \<or> (r = half \<and> odd q) then q + 1 else q)
            in q' * 2 ^ e))"

definition to_number :: "nat \<Rightarrow> js_number" where
  "to_number v = (let d = round_to_double v in if d < 2 ^ 1024 then Number d else Infinity)"

text \<open>
  \<^verbatim>\<open>parseInt(digits, 10)\<close> on a run of digits: the number written in decimal, as a
  double. (The language lets an implementation read the digits after the twentieth
  significant one as zeros; the model reads them all. Up to \<open>2 ^ 53\<close> there are at most
  sixteen significant digits.)
\<close>

definition decimal_value :: "string \<Rightarrow> nat" where
  "decimal_value ds = foldl (\<lambda>a c. 10 * a + digit_val c) 0 ds"

definition parseInt :: "string \<Rightarrow> js_number" where
  "parseInt ds = to_number (decimal_value ds)"

text \<open>
  Decimal printing of an integer, as a template literal or \<^verbatim>\<open>%d\<close> prints it (a
  template literal prints so below \<open>10 ^ 21\<close> in absolute value).
\<close>

definition digit_char :: "nat \<Rightarrow> char" where
  "digit_char n = ''0123456789'' ! (n mod 10)"

fun string_of_nat :: "nat \<Rightarrow> string" where
  "string_of_nat n =
     (if n < 10 then [digit_char n] else string_of_nat (n div 10) @ [digit_char n])"

declare string_of_nat.simps [simp del]

definition string_of_int :: "int \<Rightarrow> string" where
  "string_of_int i = (if i < 0 then CHR ''-'' # string_of_nat (nat (- i)) else string_of_nat (nat i))"

text \<open>\<^verbatim>\<open>Array.prototype.join\<close> with a separator.\<close>

fun join :: "string \<Rightarrow> string list \<Rightarrow> string" where
  "join sep [] = []"
| "join sep [x] = x"
| "join sep (x # y # ys) = x @ sep @ join sep (y # ys)"


section \<open>The diagnostic parser: parseCompilerOutput\<close>

text \<open>The result record; its field \<^verbatim>\<open>output\<close> is \<open>output_text\<close> here.\<close>

record CompilationResult =
  success :: bool
  output_text :: string
  errors :: "string list"
  warnings :: "string list"
  amxSize :: "js_number option"

text \<open>
  \<^verbatim>\<open>line.match(/AMX file size: (\d+) bytes/)\<close>. \<open>match_here\<close> tries the pattern at the
  start of its argument: the literal, then the longest run of digits, which must not be
  empty, then the literal \<^verbatim>\<open> bytes\<close>. A shorter run of digits is followed by a digit, not
  by a space, so backtracking never finds a match that the longest run misses.
  \<open>amx_match\<close> is the leftmost match in the line and returns the group, parsed.
\<close>

definition match_here :: "string \<Rightarrow> js_number option" where
  "match_here s =
     (if prefix ''AMX file size: '' s then
        (let r = drop 15 s; ds = takeWhile is_digit r; rest = dropWhile is_digit r
         in if ds \<noteq> [] \<and> prefix '' bytes'' rest then Some (parseInt ds) else None)
      else None)"

fun amx_match :: "string \<Rightarrow> js_number option" where
  "amx_match [] = match_here []"
| "amx_match (x # xs) =
     (case match_here (x # xs) of Some n \<Rightarrow> Some n | None \<Rightarrow> amx_match xs)"

text \<open>The four local variables of the loop, and the body of the loop for one line.\<close>

record parse_vars =
  v_success :: bool
  v_errors :: "string list"
  v_warnings :: "string list"
  v_amxSize :: "js_number option"

definition has_marker :: "string \<Rightarrow> bool" where
  "has_marker line = str_includes line ''Compilation successful''"

definition is_error_line :: "string \<Rightarrow> bool" where
  "is_error_line line = (str_includes line ''error'' \<and> str_includes line '':'')"

definition is_warning_line :: "string \<Rightarrow> bool" where
  "is_warning_line line = (str_includes line ''warning'' \<and> str_includes line '':'')"

definition parse_line :: "parse_vars \<Rightarrow> string \<Rightarrow> parse_vars" where
  "parse_line v line =
     (let v1 = (if has_marker line then
                  (let v' = v\<lparr>v_success := True\<rparr>
                   in case amx_match line of
                        Some n \<Rightarrow> v'\<lparr>v_amxSize := Some n\<rparr>
                      | None \<Rightarrow> v')
                else v);
          v2 = (if is_error_line line
                then v1\<lparr>v_errors := v_errors v1 @ [trim line]\<rparr> else v1);
          v3 = (if is_warning_line line
                then v2\<lparr>v_warnings := v_warnings v2 @ [trim line]\<rparr> else v2)
      in v3)"

definition parse_init :: parse_vars where
  "parse_init = \<lparr>v_success = False, v_errors = [], v_warnings = [], v_amxSize = None\<rparr>"

definition output_lines :: "string \<Rightarrow> string list" where
  "output_lines out = split_on (CHR 0x0A) out"

definition parseCompilerOutput :: "string \<Rightarrow> CompilationResult" where
  "parseCompilerOutput out =
     (let v = foldl parse_line parse_init (output_lines out)
      in \<lparr>success = v_success v, output_text = out, errors = v_errors v,
          warnings = v_warnings v, amxSize = v_amxSize v\<rparr>)"


section \<open>The option marshaler\<close>

text \<open>
  A level is a number; the model takes the integers, which a template literal prints in
  decimal. An absent field is \<open>None\<close>. An array is truthy also when it is empty, so the
  test on \<^verbatim>\<open>options.additionalFlags\<close> is a test for presence.
\<close>

record CompilerOptions =
  optimizationLevel :: "int option"
  debugLevel :: "int option"
  additionalFlags :: "string list option"

text \<open>The array \<^verbatim>\<open>optionsArray\<close> after each push, and the joined string.\<close>

definition optionsArray :: "CompilerOptions \<Rightarrow> string list" where
  "optionsArray options =
     (let a0 = [];
          a1 = (case optimizationLevel options of
                  Some n \<Rightarrow> a0 @ [''-O'' @ string_of_int n] | None \<Rightarrow> a0);
          a2 = (case debugLevel options of
                  Some n \<Rightarrow> a1 @ [''-d'' @ string_of_int n] | None \<Rightarrow> a1);
          a3 = a2 @ [''-i/include''];
          a4 = (case additionalFlags options of Some fl \<Rightarrow> a3 @ fl | None \<Rightarrow> a3)
      in a4)"

definition optionsString :: "CompilerOptions \<Rightarrow> string" where
  "optionsString options = join '' '' (optionsArray options)"


section \<open>The virtual filesystem of the module\<close>

text \<open>
  The module's filesystem is the in-memory filesystem of the runtime that hosts the
  compiler; the wrapper uses five of its operations. It is modelled as a map from
  resolved paths to nodes. A path string is resolved as the runtime resolves an absolute
  path: split at the slash, empty pieces and \<^verbatim>\<open>.\<close> dropped, \<^verbatim>\<open>..\<close> stepping up and
  staying at the root. The root is always a directory.

  An operation that fails throws an error object with the fields \<^verbatim>\<open>errno\<close> and
  \<^verbatim>\<open>message\<close>. The wrapper's own comment fixes the number of the error raised for an
  existing path: "File exists" errors are \<^verbatim>\<open>errno 17\<close>.
\<close>

datatype node = Dir | File string

type_synonym vfs = "string list \<rightharpoonup> node"

record fs_error =
  errno :: nat
  message :: string

definition EEXIST :: fs_error where
  "EEXIST = \<lparr>errno = 17, message = ''File exists''\<rparr>"

definition ENOENT :: fs_error where
  "ENOENT = \<lparr>errno = 2, message = ''No such file or directory''\<rparr>"

definition ENOTDIR :: fs_error where
  "ENOTDIR = \<lparr>errno = 20, message = ''Not a directory''\<rparr>"

definition EISDIR :: fs_error where
  "EISDIR = \<lparr>errno = 21, message = ''Is a directory''\<rparr>"

definition resolve_step :: "string list \<Rightarrow> string \<Rightarrow> string list" where
  "resolve_step acc seg =
     (if seg = [] \<or> seg = ''.'' then acc
      else if seg = ''..'' then butlast acc
      else acc @ [seg])"

definition resolve :: "string \<Rightarrow> string list" where
  "resolve path = foldl resolve_step [] (split_on (CHR ''/'') path)"

definition node_at :: "vfs \<Rightarrow> string list \<Rightarrow> node option" where
  "node_at fs p = (if p = [] then Some Dir else fs p)"

text \<open>\<^verbatim>\<open>FS.analyzePath(path).exists\<close>\<close>

definition exists_path :: "vfs \<Rightarrow> string \<Rightarrow> bool" where
  "exists_path fs path = (node_at fs (resolve path) \<noteq> None)"

text \<open>The error of an operation that needs the parent directory of \<open>p\<close> and does not find it.\<close>

definition parent_error :: "vfs \<Rightarrow> string list \<Rightarrow> fs_error" where
  "parent_error fs p = (if node_at fs (butlast p) = None then ENOENT else ENOTDIR)"

text \<open>\<^verbatim>\<open>FS.mkdir(path)\<close>\<close>

definition mkdir :: "vfs \<Rightarrow> string \<Rightarrow> fs_error + vfs" where
  "mkdir fs path =
     (let p = resolve path
      in if node_at fs p \<noteq> None then Inl EEXIST
         else if node_at fs (butlast p) \<noteq> Some Dir then Inl (parent_error fs p)
         else Inr (fs(p \<mapsto> Dir)))"

text \<open>\<^verbatim>\<open>FS.unlink(path)\<close>\<close>

definition unlink :: "vfs \<Rightarrow> string \<Rightarrow> fs_error + vfs" where
  "unlink fs path =
     (let p = resolve path
      in case node_at fs p of
           None \<Rightarrow> Inl ENOENT
         | Some Dir \<Rightarrow> Inl EISDIR
         | Some (File old) \<Rightarrow> Inr (fs(p := None)))"

text \<open>\<^verbatim>\<open>FS.writeFile(path, data)\<close>: the file is created or truncated, then written.\<close>

definition writeFile :: "vfs \<Rightarrow> string \<Rightarrow> string \<Rightarrow> fs_error + vfs" where
  "writeFile fs path content =
     (let p = resolve path
      in case node_at fs p of
           Some Dir \<Rightarrow> Inl EISDIR
         | Some (File old) \<Rightarrow> Inr (fs(p \<mapsto> File content))
         | None \<Rightarrow>
             if node_at fs (butlast p) \<noteq> Some Dir then Inl (parent_error fs p)
             else Inr (fs(p \<mapsto> File content)))"

text \<open>\<^verbatim>\<open>FS.readFile(path)\<close>\<close>

definition readFile :: "vfs \<Rightarrow> string \<Rightarrow> fs_error + string" where
  "readFile fs path =
     (case node_at fs (resolve path) of
        None \<Rightarrow> Inl ENOENT
      | Some Dir \<Rightarrow> Inl EISDIR
      | Some (File content) \<Rightarrow> Inr content)"


section \<open>The module-level variables\<close>

text \<open>
  The module object carries its filesystem. The three variables of the wrapper are
  \<^verbatim>\<open>compilerModule\<close> (\<open>None\<close> is \<^verbatim>\<open>null\<close>), \<^verbatim>\<open>compilerReady\<close> and
  \<^verbatim>\<open>readyCallbacks\<close>. A callback is named by the caller whose promise it resolves.
  The other three fields record what the host's scheduler holds: the callers suspended at
  the \<^verbatim>\<open>await\<close> of the load, the state of every caller's promise, and the order in
  which the code fulfils them: a queued callback when it is called, a caller's own call
  when it returns.
\<close>

record PawnCompilerModule =
  FS :: vfs

datatype promise = Pending | Fulfilled | Rejected string

record world =
  compilerModule :: "PawnCompilerModule option"
  compilerReady :: bool
  readyCallbacks :: "nat list"
  loading :: "nat list"
  promises :: "nat \<rightharpoonup> promise"
  fulfilled :: "nat list"

definition initial :: world where
  "initial = \<lparr>compilerModule = None, compilerReady = False, readyCallbacks = [],
              loading = [], promises = Map.empty, fulfilled = []\<rparr>"

text \<open>
  What a thrown value is: an \<^verbatim>\<open>Error\<close> with its message, a filesystem error, or any
  other value, given by the text that \<^verbatim>\<open>String\<close> makes of it.
\<close>

datatype js_error = Error string | ErrnoError fs_error | Thrown string

text \<open>\<^verbatim>\<open>String(error)\<close>\<close>

fun String_of :: "js_error \<Rightarrow> string" where
  "String_of (Error msg) = ''Error: '' @ msg"
| "String_of (ErrnoError e) = ''ErrnoError: '' @ message e"
| "String_of (Thrown text) = text"


section \<open>The lifecycle manager: initCompiler\<close>

text \<open>
  The host runs one piece of code at a time, and a call of \<^verbatim>\<open>initCompiler\<close> gives up
  control only at the two consecutive \<^verbatim>\<open>await\<close>s of the load (the import of the
  generated script, then the factory), between which it touches no variable. So a call is
  two atomic pieces: \<open>initCompiler_call\<close>, from the entry to the first \<^verbatim>\<open>await\<close> or to
  the return, and \<open>initCompiler_resume\<close>, from the end of the load to the return or the
  throw. The load either throws or returns a module object; the factory never resolves to
  \<^verbatim>\<open>null\<close>, so the test on \<^verbatim>\<open>compilerModule\<close> before \<^verbatim>\<open>FS.mkdir\<close> always passes.
\<close>

datatype load_outcome = LoadThrows string | LoadReturns PawnCompilerModule

definition initCompiler_call :: "nat \<Rightarrow> world \<Rightarrow> world" where
  "initCompiler_call c w =
     (if compilerReady w then
        w\<lparr>promises := (promises w)(c \<mapsto> Fulfilled), fulfilled := fulfilled w @ [c]\<rparr>
      else if compilerModule w \<noteq> None then
        w\<lparr>readyCallbacks := readyCallbacks w @ [c], promises := (promises w)(c \<mapsto> Pending)\<rparr>
      else
        w\<lparr>loading := loading w @ [c], promises := (promises w)(c \<mapsto> Pending)\<rparr>)"

text \<open>The \<^verbatim>\<open>catch\<close> block: the caller's promise is rejected; no variable is written.\<close>

definition init_failed :: "nat \<Rightarrow> string \<Rightarrow> world \<Rightarrow> world" where
  "init_failed c err w =
     w\<lparr>promises := (promises w)(c \<mapsto> Rejected (''Compiler initialization failed: '' @ err))\<rparr>"

text \<open>\<^verbatim>\<open>readyCallbacks.forEach(cb => cb())\<close>\<close>

definition resolve_all :: "nat list \<Rightarrow> (nat \<rightharpoonup> promise) \<Rightarrow> (nat \<rightharpoonup> promise)" where
  "resolve_all cbs ps = foldl (\<lambda>m cb. m(cb \<mapsto> Fulfilled)) ps cbs"

definition initCompiler_resume :: "nat \<Rightarrow> load_outcome \<Rightarrow> world \<Rightarrow> world" where
  "initCompiler_resume c r w0 =
     (let w = w0\<lparr>loading := removeAll c (loading w0)\<rparr>
      in case r of
           LoadThrows err \<Rightarrow> init_failed c err w
         | LoadReturns m \<Rightarrow>
             (let w1 = w\<lparr>compilerModule := Some m\<rparr>
              in case mkdir (FS m) ''/include'' of
                   Inl err \<Rightarrow> init_failed c (String_of (ErrnoError err)) w1
                 | Inr fs' \<Rightarrow>
                     w1\<lparr>compilerModule := Some (m\<lparr>FS := fs'\<rparr>),
                        compilerReady := True,
                        promises := (resolve_all (readyCallbacks w1) (promises w1))(c \<mapsto> Fulfilled),
                        fulfilled := fulfilled w1 @ readyCallbacks w1 @ [c],
                        readyCallbacks := []\<rparr>))"

text \<open>
  The lifecycle state that a caller observes is the branch that \<^verbatim>\<open>initCompiler\<close> takes:
  it returns at once, it queues the caller, or it loads.
\<close>

datatype ModuleState = Uninitialized | Initializing | Ready

definition lifecycle :: "world \<Rightarrow> ModuleState" where
  "lifecycle w =
     (if compilerReady w then Ready
      else if compilerModule w \<noteq> None then Initializing
      else Uninitialized)"


section \<open>The include store: addIncludeFile\<close>

text \<open>
  The loop over the directory parts. The result is the error thrown, if any, and the
  filesystem as the loop leaves it. The three ways past a failed \<^verbatim>\<open>mkdir\<close> are kept
  apart as in the source: the error is recognised as "File exists", or the path exists all
  the same, or the error is thrown again.
\<close>

fun mkdir_loop :: "vfs \<Rightarrow> string \<Rightarrow> string list \<Rightarrow> fs_error option \<times> vfs" where
  "mkdir_loop fs currentPath [] = (None, fs)"
| "mkdir_loop fs currentPath (part # parts) =
     (let currentPath' = currentPath @ ''/'' @ part
      in case mkdir fs currentPath' of
           Inr fs' \<Rightarrow> mkdir_loop fs' currentPath' parts
         | Inl err \<Rightarrow>
             if errno err = 17 \<or> str_includes (message err) ''File exists''
             then mkdir_loop fs currentPath' parts
             else if \<not> exists_path fs currentPath' then (Some err, fs)
             else mkdir_loop fs currentPath' parts)"

definition set_FS :: "world \<Rightarrow> PawnCompilerModule \<Rightarrow> vfs \<Rightarrow> world" where
  "set_FS w m fs = w\<lparr>compilerModule := Some (m\<lparr>FS := fs\<rparr>)\<rparr>"

definition addIncludeFile :: "world \<Rightarrow> string \<Rightarrow> string \<Rightarrow> js_error option \<times> world" where
  "addIncludeFile w filename content =
     (case compilerModule w of
        None \<Rightarrow> (Some (Error ''Compiler not initialized. Call initCompiler() first.''), w)
      | Some m \<Rightarrow>
          (let parts = split_on (CHR ''/'') filename;
               (thrown, fs1) = (if length parts > 1
                                then mkdir_loop (FS m) ''/include'' (butlast parts)
                                else (None, FS m))
           in case thrown of
                Some err \<Rightarrow> (Some (ErrnoError err), set_FS w m fs1)
              | None \<Rightarrow>
                  (let path = ''/include/'' @ filename
                   in case (if exists_path fs1 path then unlink fs1 path else Inr fs1) of
                        Inl err \<Rightarrow> (Some (ErrnoError err), set_FS w m fs1)
                      | Inr fs2 \<Rightarrow>
                          (case writeFile fs2 path content of
                             Inl err \<Rightarrow> (Some (ErrnoError err), set_FS w m fs2)
                           | Inr fs3 \<Rightarrow> (None, set_FS w m fs3)))))"

text \<open>What the store holds at an include path, read back through the filesystem.\<close>

definition include_content :: "world \<Rightarrow> string \<Rightarrow> string option" where
  "include_content w filename =
     (case compilerModule w of
        None \<Rightarrow> None
      | Some m \<Rightarrow> (case readFile (FS m) (''/include/'' @ filename) of
                     Inl err \<Rightarrow> None | Inr content \<Rightarrow> Some content))"


section \<open>The invocation bridge: compile\<close>

text \<open>
  The body of the \<^verbatim>\<open>try\<close> block crosses into the module three times and then parses.
  The crossing is a parameter: for the source text and the option string it gives the text
  that the module returned, or \<open>Inl\<close> of the value thrown on the way.
\<close>

definition compile ::
  "(string \<Rightarrow> string \<Rightarrow> js_error + string) \<Rightarrow> world \<Rightarrow> string \<Rightarrow> CompilerOptions
     \<Rightarrow> js_error + CompilationResult" where
  "compile ccall w sourceCode options =
     (if \<not> compilerReady w \<or> compilerModule w = None
      then Inl (Error ''Compiler not initialized. Call initCompiler() first.'')
      else (case ccall sourceCode (optionsString options) of
              Inr out \<Rightarrow> Inr (parseCompilerOutput out)
            | Inl error \<Rightarrow>
                Inr \<lparr>success = False, output_text = String_of error,
                     errors = [String_of error], warnings = [], amxSize = None\<rparr>))"


section \<open>The artifact and cleanup manager\<close>


text \<open>
  The loop of \<^verbatim>\<open>cleanup\<close> runs inside one \<^verbatim>\<open>try\<close> block: an error thrown by
  \<^verbatim>\<open>unlink\<close> leaves the loop. The result is the error that the \<^verbatim>\<open>catch\<close> block
  reports on the console, if any, and the variables afterwards.
\<close>

fun unlink_loop :: "vfs \<Rightarrow> string list \<Rightarrow> fs_error option \<times> vfs" where
  "unlink_loop fs [] = (None, fs)"
| "unlink_loop fs (file # files) =
     (if exists_path fs file then
        (case unlink fs file of
           Inl err \<Rightarrow> (Some err, fs)
         | Inr fs' \<Rightarrow> unlink_loop fs' files)
      else unlink_loop fs files)"

definition cleanup_files :: "string list" where
  "cleanup_files = [''/input.pwn'', ''/output.amx'', ''/output.txt'']"

definition cleanup :: "world \<Rightarrow> fs_error option \<times> world" where
  "cleanup w =
     (case compilerModule w of
        None \<Rightarrow> (None, w)
      | Some m \<Rightarrow>
          (let (reported, fs') = unlink_loop (FS m) cleanup_files
           in (reported, set_FS w m fs')))"


section \<open>The C side of the boundary: the argument vector of pawncl_compile\<close>

text \<open>
  The vector that \<^verbatim>\<open>pawncl_compile\<close> hands to \<^verbatim>\<open>pc_compile\<close>, once the source has
  been written to the input file. A C string ends at its first NUL; \<open>None\<close> is the
  \<^verbatim>\<open>NULL\<close> pointer. One call of
  \<^verbatim>\<open>strtok\<close> with the delimiter set \<^verbatim>\<open>" "\<close> works on the unread rest of the copy:
  it skips spaces, returns \<^verbatim>\<open>NULL\<close> at the end, and otherwise returns the run of
  characters up to the next space and leaves the rest behind that space unread.
\<close>

definition c_string :: "string \<Rightarrow> string" where
  "c_string s = takeWhile (\<lambda>c. c \<noteq> CHR 0x00) s"

definition strtok :: "string \<Rightarrow> (string \<times> string) option" where
  "strtok s =
     (let s1 = dropWhile (\<lambda>c. c = CHR '' '') s
      in if s1 = [] then None
         else Some (takeWhile (\<lambda>c. c \<noteq> CHR '' '') s1,
                    drop 1 (dropWhile (\<lambda>c. c \<noteq> CHR '' '') s1)))"

text \<open>
  The \<^verbatim>\<open>while\<close> loop: \<open>argv\<close> holds the entries written so far, so \<^verbatim>\<open>argc\<close> is its
  length; the second argument is the current token with the unread rest.
\<close>

function token_loop :: "string list \<Rightarrow> (string \<times> string) option \<Rightarrow> string list" where
  "token_loop argv None = argv"
| "token_loop argv (Some (token, rest)) =
     (if length argv < 30 then token_loop (argv @ [token]) (strtok rest) else argv)"
  by pat_completeness auto
termination
proof (relation "measure (\<lambda>(argv, t). case t of None \<Rightarrow> 0 | Some (token, rest) \<Rightarrow> Suc (length rest))")
  show "wf (measure (\<lambda>(argv, t). case t of None \<Rightarrow> 0 | Some (token, rest) \<Rightarrow> Suc (length rest)))"
    by simp
next
  fix argv :: "string list" and token rest :: string
  assume "length argv < 30"
  have "length (drop 1 (dropWhile (\<lambda>c. c \<noteq> CHR '' '') (dropWhile (\<lambda>c. c = CHR '' '') rest)))
          < length rest"
    if "dropWhile (\<lambda>c. c = CHR '' '') rest \<noteq> []"
  proof -
    have "length (dropWhile (\<lambda>c. c \<noteq> CHR '' '') (dropWhile (\<lambda>c. c = CHR '' '') rest))
            \<le> length rest"
      by (meson length_dropWhile_le le_trans)
    moreover have "rest \<noteq> []"
      using that by auto
    ultimately show ?thesis
      by (cases rest) auto
  qed
  then show "((argv @ [token], strtok rest), (argv, Some (token, rest)))
               \<in> measure (\<lambda>(argv, t). case t of None \<Rightarrow> 0 | Some (token, rest) \<Rightarrow> Suc (length rest))"
    by (auto simp: strtok_def Let_def)
qed

definition pawncl_argv :: "string option \<Rightarrow> string list" where
  "pawncl_argv options =
     (let argv0 = [''pawncc'', ''-o/output.amx''];
          argv1 = (case options of
                     None \<Rightarrow> argv0
                   | Some opts \<Rightarrow>
                       if length (c_string opts) > 0
                       then token_loop argv0 (strtok (c_string opts))
                       else argv0)
      in argv1 @ [''/input.pwn''])"

text \<open>
  The option tokens of a string, in the words of the comment "Parse options string": the
  pieces between spaces that are not empty.
\<close>

definition option_tokens :: "string \<Rightarrow> string list" where
  "option_tokens s = filter (\<lambda>t. t \<noteq> []) (split_on (CHR '' '') s)"

text \<open>
  The tokens of a string that white space separates: the pieces between white space
  characters (those of C's \<^verbatim>\<open>isspace\<close>) that are not empty.
\<close>

definition is_c_space :: "char \<Rightarrow> bool" where
  "is_c_space c = (c \<in> set [CHR 0x20, CHR 0x09, CHR 0x0A, CHR 0x0B, CHR 0x0C, CHR 0x0D])"

fun split_where :: "(char \<Rightarrow> bool) \<Rightarrow> string \<Rightarrow> string list" where
  "split_where sep [] = [[]]"
| "split_where sep (x # xs) =
     (if sep x then [] # split_where sep xs
      else (case split_where sep xs of [] \<Rightarrow> [[x]] | l # ls \<Rightarrow> (x # l) # ls))"

definition whitespace_tokens :: "string \<Rightarrow> string list" where
  "whitespace_tokens s = filter (\<lambda>t. t \<noteq> []) (split_where is_c_space s)"



section \<open>The C side of the boundary: pawncl_compile\<close>


text \<open>
  \<^verbatim>\<open>fopen(path, "w")\<close>, \<^verbatim>\<open>fprintf\<close> of a string and \<^verbatim>\<open>fclose\<close>: the file is created or
  truncated and holds the string; \<open>None\<close> when \<^verbatim>\<open>fopen\<close> returns \<^verbatim>\<open>NULL\<close>.
\<close>

definition fopen_write :: "vfs \<Rightarrow> string \<Rightarrow> string \<Rightarrow> vfs option" where
  "fopen_write fs path text =
     (case writeFile fs path text of Inl err \<Rightarrow> None | Inr fs' \<Rightarrow> Some fs')"




section \<open>The host's events\<close>

text \<open>
  What the host does next: a caller calls \<^verbatim>\<open>initCompiler\<close>, the load of a suspended
  caller ends, a caller adds an include file or cleans up, or a compilation that passed the
  guard of \<^verbatim>\<open>compile\<close> has run inside the module and left the module's filesystem in
  some state. A run is a sequence of events from the initial state.
\<close>

datatype event =
    Call nat
  | LoadDone nat load_outcome
  | AddInclude string string
  | Cleanup
  | Compiled vfs

fun step :: "world \<Rightarrow> event \<Rightarrow> world" where
  "step w (Call c) = initCompiler_call c w"
| "step w (LoadDone c r) = (if c \<in> set (loading w) then initCompiler_resume c r w else w)"
| "step w (AddInclude filename content) = snd (addIncludeFile w filename content)"
| "step w Cleanup = snd (cleanup w)"
| "step w (Compiled fs) =
     (case compilerModule w of
        None \<Rightarrow> w
      | Some m \<Rightarrow> if compilerReady w then set_FS w m fs else w)"

definition run :: "event list \<Rightarrow> world \<Rightarrow> world" where
  "run evs w = foldl step w evs"


section \<open>Whole calls of the interface, with the compiler at work\<close>











section \<open>Notions used to state the properties\<close>

text \<open>Whether the store of the loaded module has something at a path.\<close>

definition store_exists :: "world \<Rightarrow> string \<Rightarrow> bool" where
  "store_exists w path =
     (case compilerModule w of None \<Rightarrow> False | Some m \<Rightarrow> exists_path (FS m) path)"

text \<open>
  The directory parts of an include file name, the paths that the loop of
  \<^verbatim>\<open>addIncludeFile\<close> passes to \<^verbatim>\<open>mkdir\<close> for them, and the path of the file.
\<close>

definition dir_parts :: "string \<Rightarrow> string list" where
  "dir_parts filename = butlast (split_on (CHR ''/'') filename)"

fun dir_prefixes :: "string \<Rightarrow> string list \<Rightarrow> string list" where
  "dir_prefixes currentPath [] = []"
| "dir_prefixes currentPath (part # parts) =
     (currentPath @ ''/'' @ part) # dir_prefixes (currentPath @ ''/'' @ part) parts"

definition include_path :: "string \<Rightarrow> string" where
  "include_path filename = ''/include/'' @ filename"

text \<open>
  A state in which a module object is set, the ready flag is not, and no load is in flight.
\<close>

definition stuck :: "world \<Rightarrow> bool" where
  "stuck w = (compilerModule w \<noteq> None \<and> \<not> compilerReady w \<and> loading w = [])"




section \<open>Properties of the diagnostic parser\<close>

subsection \<open>Numbers\<close>

lemma bit_length_pow2: "bit_length (2 ^ k) = Suc k"
proof (induction k)
  case 0
  show ?case by (simp add: bit_length.simps [of "Suc 0"] bit_length.simps [of 0])
next
  case (Suc k)
  have "bit_length (2 ^ Suc k) = Suc (bit_length (2 ^ Suc k div 2))"
    by (subst bit_length.simps) simp
  with Suc show ?case by simp
qed

lemma round_to_double_exact: "v \<le> 2 ^ 53 \<Longrightarrow> round_to_double v = v"
proof (cases "v < 2 ^ 53")
  case True
  then show ?thesis by (simp add: round_to_double_def)
next
  case False
  assume "v \<le> 2 ^ 53"
  with False have v: "v = 2 ^ 53" by simp
  have e: "bit_length v - 53 = 1"
    unfolding v bit_length_pow2 by simp
  have "\<not> (2 :: nat) ^ 53 < 2 ^ 53" by simp
  then show ?thesis
    unfolding round_to_double_def Let_def e
    by (simp add: v)
qed

lemma to_number_exact: "v \<le> 2 ^ 53 \<Longrightarrow> to_number v = Number v"
proof -
  assume a: "v \<le> 2 ^ 53"
  have "(2 :: nat) ^ 53 < 2 ^ 1024"
    by (rule power_strict_increasing) simp_all
  with a have "v < 2 ^ 1024" by (rule le_less_trans)
  with a show ?thesis
    by (simp add: to_number_def Let_def round_to_double_exact)
qed

lemma parseInt_exact: "decimal_value ds \<le> 2 ^ 53 \<Longrightarrow> parseInt ds = Number (decimal_value ds)"
  by (simp add: parseInt_def to_number_exact)

lemma bit_length_between: "2 ^ k \<le> n \<Longrightarrow> n < 2 ^ Suc k \<Longrightarrow> bit_length n = Suc k"
proof (induction k arbitrary: n)
  case 0
  then have "n = Suc 0" by simp
  then show ?case by (simp add: bit_length.simps [of "Suc 0"] bit_length.simps [of 0])
next
  case (Suc k)
  from Suc.prems have "2 ^ k \<le> n div 2" and "n div 2 < 2 ^ Suc k" and "n \<noteq> 0"
    by auto
  with Suc.IH have "bit_length (n div 2) = Suc k" by blast
  with \<open>n \<noteq> 0\<close> show ?case
    by (subst bit_length.simps) simp
qed

lemma decimal_value_examples:
  "decimal_value ''9007199254740993'' = 9007199254740993"
  "decimal_value ''4096'' = 4096"
  "decimal_value ''7'' = 7"
  by (simp_all add: decimal_value_def digit_val_def)

lemma parseInt_rounds:
  "parseInt ''9007199254740993'' = Number 9007199254740992"
proof -
  have b: "bit_length 9007199254740993 = Suc 53"
    by (rule bit_length_between) simp_all
  have r: "round_to_double 9007199254740993 = 9007199254740992"
    unfolding round_to_double_def Let_def b by simp
  have "(9007199254740992 :: nat) < 2 ^ 54" by simp
  also have "(2 :: nat) ^ 54 < 2 ^ 1024"
    by (rule power_strict_increasing) simp_all
  finally show ?thesis
    by (simp add: parseInt_def decimal_value_examples to_number_def Let_def r)
qed

lemma parseInt_4096: "parseInt ''4096'' = Number 4096"
  by (simp add: parseInt_exact decimal_value_examples)

lemma parseInt_7: "parseInt ''7'' = Number 7"
  by (simp add: parseInt_exact decimal_value_examples)

subsection \<open>Lines\<close>

lemma split_on_free:
  "c \<notin> set l \<Longrightarrow> split_on c (l @ c # rest) = l # split_on c rest"
  by (induction l) auto

lemma split_on_free_end: "c \<notin> set l \<Longrightarrow> split_on c l = [l]"
  by (induction l) auto

lemma output_lines_join:
  "ls \<noteq> [] \<Longrightarrow> \<forall>l\<in>set ls. CHR 0x0A \<notin> set l \<Longrightarrow> output_lines (join [CHR 0x0A] ls) = ls"
proof (induction ls rule: induct_list012)
  case 1
  then show ?case by simp
next
  case (2 x)
  then show ?case by (simp add: output_lines_def split_on_free_end)
next
  case (3 x y ys)
  then have "output_lines (join [CHR 0x0A] (y # ys)) = y # ys" by simp
  moreover from "3.prems" have "CHR 0x0A \<notin> set x" by simp
  ultimately show ?case
    by (simp add: output_lines_def split_on_free)
qed

text \<open>
  The matcher against the pattern read as a set of strings: a match gives the number that
  \<^verbatim>\<open>parseInt\<close> makes of the digits of an occurrence of the pattern, and every
  occurrence of the pattern is matched.
\<close>

lemma match_here_sound:
  assumes "match_here s = Some n"
  shows "\<exists>ds post. s = ''AMX file size: '' @ ds @ '' bytes'' @ post
           \<and> ds \<noteq> [] \<and> (\<forall>c\<in>set ds. is_digit c) \<and> n = parseInt ds"
proof -
  let ?r = "drop 15 s"
  let ?ds = "takeWhile is_digit ?r"
  let ?rest = "dropWhile is_digit ?r"
  from assms have p: "prefix ''AMX file size: '' s"
    and ne: "?ds \<noteq> []" and b: "prefix '' bytes'' ?rest" and n: "n = parseInt ?ds"
    by (auto simp: match_here_def Let_def split: if_splits)
  from p obtain r where "s = ''AMX file size: '' @ r"
    by (auto simp: prefix_def)
  then have s: "s = ''AMX file size: '' @ ?r" by simp
  from b obtain post where rest: "?rest = '' bytes'' @ post"
    by (auto simp: prefix_def)
  have "?r = ?ds @ ?rest" by simp
  with rest have "?r = ?ds @ '' bytes'' @ post" by simp
  with s have "s = ''AMX file size: '' @ ?ds @ '' bytes'' @ post" by metis
  moreover have "\<forall>c\<in>set ?ds. is_digit c"
    by (metis set_takeWhileD)
  ultimately show ?thesis using ne n by blast
qed

lemma amx_match_sound:
  "amx_match line = Some n \<Longrightarrow>
     \<exists>pre ds post. line = pre @ ''AMX file size: '' @ ds @ '' bytes'' @ post
        \<and> ds \<noteq> [] \<and> (\<forall>c\<in>set ds. is_digit c) \<and> n = parseInt ds"
proof (induction line)
  case Nil
  then have "match_here [] = Some n" by simp
  from match_here_sound [OF this] show ?case by (metis append_Nil)
next
  case (Cons x xs)
  show ?case
  proof (cases "match_here (x # xs)")
    case (Some k)
    with Cons.prems have "match_here (x # xs) = Some n" by simp
    from match_here_sound [OF this] show ?thesis by (metis append_Nil)
  next
    case None
    with Cons.prems have "amx_match xs = Some n" by simp
    from Cons.IH [OF this] obtain pre ds post where
      "xs = pre @ ''AMX file size: '' @ ds @ '' bytes'' @ post"
      "ds \<noteq> []" "\<forall>c\<in>set ds. is_digit c" "n = parseInt ds"
      by blast
    then have "x # xs = (x # pre) @ ''AMX file size: '' @ ds @ '' bytes'' @ post" by simp
    with \<open>ds \<noteq> []\<close> \<open>\<forall>c\<in>set ds. is_digit c\<close> \<open>n = parseInt ds\<close> show ?thesis by blast
  qed
qed

lemma match_here_complete:
  assumes "ds \<noteq> []" "\<forall>c\<in>set ds. is_digit c"
  shows "match_here (''AMX file size: '' @ ds @ '' bytes'' @ post) = Some (parseInt ds)"
proof -
  have nd: "\<not> is_digit (CHR '' '')" by (simp add: is_digit_def)
  have tw: "takeWhile is_digit (ds @ '' bytes'' @ post) = ds"
    using assms(2) nd by (simp add: takeWhile_append2 del: append.simps) (simp)
  have dw: "dropWhile is_digit (ds @ '' bytes'' @ post) = '' bytes'' @ post"
    using assms(2) nd by (simp add: dropWhile_append2 del: append.simps) (simp)
  have d: "drop 15 (''AMX file size: '' @ ds @ '' bytes'' @ post) = ds @ '' bytes'' @ post"
    by simp
  have p: "prefix ''AMX file size: '' (''AMX file size: '' @ ds @ '' bytes'' @ post)"
    by (rule prefixI) simp
  show ?thesis
    unfolding match_here_def Let_def d tw dw using p assms(1) by (simp del: append.simps) 
qed

lemma amx_match_complete:
  assumes "ds \<noteq> []" "\<forall>c\<in>set ds. is_digit c"
  shows "amx_match (pre @ ''AMX file size: '' @ ds @ '' bytes'' @ post) \<noteq> None"
proof (induction pre)
  case Nil
  have "match_here (''AMX file size: '' @ ds @ '' bytes'' @ post) = Some (parseInt ds)"
    using assms by (rule match_here_complete)
  then show ?case by simp
next
  case (Cons x pre)
  then show ?case by (simp split: option.splits)
qed

lemma foldl_parse_success:
  "v_success (foldl parse_line v ls) = (v_success v \<or> (\<exists>l\<in>set ls. has_marker l))"
  by (induction ls arbitrary: v) (auto simp: parse_line_def Let_def split: option.splits)

lemma foldl_parse_errors:
  "v_errors (foldl parse_line v ls) = v_errors v @ map trim (filter is_error_line ls)"
  by (induction ls arbitrary: v) (auto simp: parse_line_def Let_def split: option.splits)

lemma foldl_parse_warnings:
  "v_warnings (foldl parse_line v ls) = v_warnings v @ map trim (filter is_warning_line ls)"
  by (induction ls arbitrary: v) (auto simp: parse_line_def Let_def split: option.splits)

lemma foldl_parse_amxSize_keep:
  "\<forall>l\<in>set ls. \<not> (has_marker l \<and> amx_match l \<noteq> None) \<Longrightarrow>
     v_amxSize (foldl parse_line v ls) = v_amxSize v"
  by (induction ls arbitrary: v) (auto simp: parse_line_def Let_def split: option.splits)

lemma parse_line_sets_size:
  "has_marker line \<Longrightarrow> amx_match line = Some n \<Longrightarrow> v_amxSize (parse_line v line) = Some n"
  by (simp add: parse_line_def Let_def)

lemma parse_line_sets_success:
  "has_marker line \<Longrightarrow> v_success (parse_line v line)"
  by (simp add: parse_line_def Let_def split: option.splits)

lemma success_iff_marker:
  "success (parseCompilerOutput out) = (\<exists>l\<in>set (output_lines out). has_marker l)"
  by (simp add: parseCompilerOutput_def Let_def foldl_parse_success parse_init_def)

lemma errors_parse:
  "errors (parseCompilerOutput out) = map trim (filter is_error_line (output_lines out))"
  by (simp add: parseCompilerOutput_def Let_def foldl_parse_errors parse_init_def)

lemma warnings_parse:
  "warnings (parseCompilerOutput out) = map trim (filter is_warning_line (output_lines out))"
  by (simp add: parseCompilerOutput_def Let_def foldl_parse_warnings parse_init_def)

lemma amxSize_last_match:
  assumes "output_lines out = before @ line # after"
    and "has_marker line" and "amx_match line = Some n"
    and "\<forall>l\<in>set after. \<not> (has_marker l \<and> amx_match l \<noteq> None)"
  shows "amxSize (parseCompilerOutput out) = Some n"
proof -
  have "v_amxSize (foldl parse_line parse_init (before @ line # after))
          = v_amxSize (foldl parse_line (parse_line (foldl parse_line parse_init before) line) after)"
    by simp
  also have "\<dots> = v_amxSize (parse_line (foldl parse_line parse_init before) line)"
    using assms(4) by (rule foldl_parse_amxSize_keep)
  also have "\<dots> = Some n"
    using assms(2,3) by (rule parse_line_sets_size)
  finally show ?thesis
    by (simp add: parseCompilerOutput_def Let_def assms(1))
qed

lemma amxSize_no_match:
  assumes "\<forall>l\<in>set (output_lines out). \<not> (has_marker l \<and> amx_match l \<noteq> None)"
  shows "amxSize (parseCompilerOutput out) = None"
proof -
  have "v_amxSize (foldl parse_line parse_init (output_lines out)) = v_amxSize parse_init"
    using assms by (rule foldl_parse_amxSize_keep)
  then show ?thesis
    by (simp add: parseCompilerOutput_def Let_def parse_init_def)
qed

lemma amx_match_message:
  assumes "ds \<noteq> []" "\<forall>c\<in>set ds. is_digit c"
  shows "amx_match (''Compilation successful! AMX file size: '' @ ds @ '' bytes'' @ post)
           = Some (parseInt ds)"
proof -
  have "match_here (''AMX file size: '' @ ds @ '' bytes'' @ post) = Some (parseInt ds)"
    using assms by (rule match_here_complete)
  then have "amx_match (''AMX file size: '' @ ds @ '' bytes'' @ post) = Some (parseInt ds)"
    by simp
  then show ?thesis
    by (simp add: match_here_def)
qed

lemma digits_no_newline: "\<forall>c\<in>set ds. is_digit c \<Longrightarrow> CHR 0x0A \<notin> set ds"
proof -
  have "\<not> is_digit (CHR 0x0A)" by (simp add: is_digit_def)
  then show "\<forall>c\<in>set ds. is_digit c \<Longrightarrow> CHR 0x0A \<notin> set ds" by blast
qed

lemma success_message_parsed:
  assumes "ds \<noteq> []" "\<forall>c\<in>set ds. is_digit c"
  shows "success (parseCompilerOutput
            (''Compilation successful! AMX file size: '' @ ds @ '' bytes'' @ [CHR 0x0A]))"
    and "amxSize (parseCompilerOutput
            (''Compilation successful! AMX file size: '' @ ds @ '' bytes'' @ [CHR 0x0A]))
           = Some (parseInt ds)"
proof -
  let ?line = "''Compilation successful! AMX file size: '' @ ds @ '' bytes''"
  let ?out = "''Compilation successful! AMX file size: '' @ ds @ '' bytes'' @ [CHR 0x0A]"
  have j: "?out = join [CHR 0x0A] [?line, []]" by simp
  have nl: "CHR 0x0A \<notin> set ?line"
    using digits_no_newline [OF assms(2)] by simp
  have ol: "output_lines ?out = [] @ ?line # [[]]"
    unfolding j using nl by (subst output_lines_join) simp_all
  have m: "has_marker ?line"
    by (simp add: has_marker_def)
  have a: "amx_match ?line = Some (parseInt ds)"
    using amx_match_message [OF assms, of "[]"] by simp
  show "success (parseCompilerOutput ?out)"
    unfolding success_iff_marker using ol m by simp
  have "\<forall>l\<in>set [[]]. \<not> (has_marker l \<and> amx_match l \<noteq> None)"
    by (simp add: has_marker_def)
  with ol m a show "amxSize (parseCompilerOutput ?out) = Some (parseInt ds)"
    by (rule amxSize_last_match)
qed

lemma parse_example_success:
  "parseCompilerOutput (''Compilation successful! AMX file size: 4096 bytes'' @ [CHR 0x0A])
     = \<lparr>success = True,
        output_text = ''Compilation successful! AMX file size: 4096 bytes'' @ [CHR 0x0A],
        errors = [], warnings = [], amxSize = Some (Number 4096)\<rparr>"
  by (simp add: parseCompilerOutput_def output_lines_def parse_line_def parse_init_def
        has_marker_def is_error_line_def is_warning_line_def match_here_def is_digit_def
        parseInt_4096)

text \<open>
  Claim C5. Parsing the text \<^verbatim>\<open>Compilation successful! AMX file size: 4096 bytes\<close>
  followed by a line feed gives success, the size 4096 and no errors or warnings. In
  general, for an output made of lines joined by line feeds: a line that contains the
  success marker makes the result a success, whatever the other lines are; when that line
  also matches the size pattern, and no later line has both the marker and a match, the
  size of the result is the number parsed from that line; when no line has both the marker
  and a match (a size on another line than the marker does not count), the result has no
  size. A line matches exactly when it contains the pattern, and the number is the value of
  \<^verbatim>\<open>parseInt\<close> on the digits: the decimal value itself up to \<open>2 ^ 53\<close>, and beyond that the
  double nearest to it.
\<close>

theorem parse_success_marker_and_size:
  "parseCompilerOutput (''Compilation successful! AMX file size: 4096 bytes'' @ [CHR 0x0A])
     = \<lparr>success = True,
        output_text = ''Compilation successful! AMX file size: 4096 bytes'' @ [CHR 0x0A],
        errors = [], warnings = [], amxSize = Some (Number 4096)\<rparr>
   \<and> ((\<forall>l\<in>set (before @ line # after). CHR 0x0A \<notin> set l)
        \<and> str_includes line ''Compilation successful''
        \<longrightarrow> success (parseCompilerOutput (join [CHR 0x0A] (before @ line # after))))
   \<and> ((\<forall>l\<in>set (before @ line # after). CHR 0x0A \<notin> set l)
        \<and> str_includes line ''Compilation successful'' \<and> amx_match line = Some x
        \<and> (\<forall>l\<in>set after. \<not> (str_includes l ''Compilation successful'' \<and> amx_match l \<noteq> None))
        \<longrightarrow> amxSize (parseCompilerOutput (join [CHR 0x0A] (before @ line # after))) = Some x)
   \<and> (ls \<noteq> [] \<and> (\<forall>l\<in>set ls. CHR 0x0A \<notin> set l)
        \<and> (\<forall>l\<in>set ls. \<not> (str_includes l ''Compilation successful'' \<and> amx_match l \<noteq> None))
        \<longrightarrow> amxSize (parseCompilerOutput (join [CHR 0x0A] ls)) = None)
   \<and> (amx_match line = Some x
        \<longrightarrow> (\<exists>pre ds post. line = pre @ ''AMX file size: '' @ ds @ '' bytes'' @ post
               \<and> ds \<noteq> [] \<and> (\<forall>c\<in>set ds. is_digit c) \<and> x = parseInt ds))
   \<and> (ds \<noteq> [] \<and> (\<forall>c\<in>set ds. is_digit c)
        \<longrightarrow> amx_match (pre @ ''AMX file size: '' @ ds @ '' bytes'' @ post) \<noteq> None
            \<and> amxSize (parseCompilerOutput
                 (''Compilation successful! AMX file size: '' @ ds @ '' bytes'' @ [CHR 0x0A]))
                = Some (parseInt ds))
   \<and> (decimal_value ds \<le> 2 ^ 53 \<longrightarrow> parseInt ds = Number (decimal_value ds))"
proof (intro conjI impI)
  show "parseCompilerOutput (''Compilation successful! AMX file size: 4096 bytes'' @ [CHR 0x0A])
     = \<lparr>success = True,
        output_text = ''Compilation successful! AMX file size: 4096 bytes'' @ [CHR 0x0A],
        errors = [], warnings = [], amxSize = Some (Number 4096)\<rparr>"
    by (rule parse_example_success)
next
  assume a: "(\<forall>l\<in>set (before @ line # after). CHR 0x0A \<notin> set l)
        \<and> str_includes line ''Compilation successful''"
  then have "output_lines (join [CHR 0x0A] (before @ line # after)) = before @ line # after"
    by (intro output_lines_join) simp_all
  with a show "success (parseCompilerOutput (join [CHR 0x0A] (before @ line # after)))"
    by (simp add: success_iff_marker has_marker_def)
next
  assume a: "(\<forall>l\<in>set (before @ line # after). CHR 0x0A \<notin> set l)
        \<and> str_includes line ''Compilation successful'' \<and> amx_match line = Some x
        \<and> (\<forall>l\<in>set after. \<not> (str_includes l ''Compilation successful'' \<and> amx_match l \<noteq> None))"
  show "amxSize (parseCompilerOutput (join [CHR 0x0A] (before @ line # after))) = Some x"
  proof (rule amxSize_last_match)
    show "output_lines (join [CHR 0x0A] (before @ line # after)) = before @ line # after"
      using a by (intro output_lines_join) simp_all
    show "has_marker line" using a by (simp add: has_marker_def)
    show "amx_match line = Some x" using a by blast
    show "\<forall>l\<in>set after. \<not> (has_marker l \<and> amx_match l \<noteq> None)"
      using a by (simp add: has_marker_def)
  qed
next
  assume a: "ls \<noteq> [] \<and> (\<forall>l\<in>set ls. CHR 0x0A \<notin> set l)
        \<and> (\<forall>l\<in>set ls. \<not> (str_includes l ''Compilation successful'' \<and> amx_match l \<noteq> None))"
  then have "output_lines (join [CHR 0x0A] ls) = ls"
    by (intro output_lines_join) simp_all
  with a have "\<forall>l\<in>set (output_lines (join [CHR 0x0A] ls)). \<not> (has_marker l \<and> amx_match l \<noteq> None)"
    by (simp add: has_marker_def)
  then show "amxSize (parseCompilerOutput (join [CHR 0x0A] ls)) = None"
    by (rule amxSize_no_match)
next
  assume "amx_match line = Some x"
  then show "\<exists>pre ds post. line = pre @ ''AMX file size: '' @ ds @ '' bytes'' @ post
               \<and> ds \<noteq> [] \<and> (\<forall>c\<in>set ds. is_digit c) \<and> x = parseInt ds"
    by (rule amx_match_sound)
next
  assume a: "ds \<noteq> [] \<and> (\<forall>c\<in>set ds. is_digit c)"
  then have d: "ds \<noteq> []" "\<forall>c\<in>set ds. is_digit c" by blast+
  from d show "amx_match (pre @ ''AMX file size: '' @ ds @ '' bytes'' @ post) \<noteq> None"
    by (rule amx_match_complete)
  from d show "amxSize (parseCompilerOutput
                 (''Compilation successful! AMX file size: '' @ ds @ '' bytes'' @ [CHR 0x0A]))
                = Some (parseInt ds)"
    by (rule success_message_parsed(2))
next
  assume "decimal_value ds \<le> 2 ^ 53"
  then show "parseInt ds = Number (decimal_value ds)"
    by (rule parseInt_exact)
qed

theorem parse_success_marker_and_size_witness:
  "success (parseCompilerOutput
      (''note'' @ [CHR 0x0A] @ ''Compilation successful! AMX file size: 7 bytes'' @ [CHR 0x0A] @ ''done''))
   \<and> amxSize (parseCompilerOutput
      (''note'' @ [CHR 0x0A] @ ''Compilation successful! AMX file size: 7 bytes'' @ [CHR 0x0A] @ ''done''))
       = Some (Number 7)
   \<and> success (parseCompilerOutput (''AMX file size: 7 bytes'' @ [CHR 0x0A] @ ''Compilation successful!''))
   \<and> amxSize (parseCompilerOutput (''AMX file size: 7 bytes'' @ [CHR 0x0A] @ ''Compilation successful!''))
       = None
   \<and> amxSize (parseCompilerOutput
        (''Compilation successful! AMX file size: 9007199254740993 bytes'' @ [CHR 0x0A]))
       = Some (Number 9007199254740992)"
proof -
  let ?l7 = "''Compilation successful! AMX file size: 7 bytes''"
  have m7: "amx_match ?l7 = Some (Number 7)"
    using amx_match_message [of "''7''" "[]"] by (simp add: is_digit_def parseInt_7)
  have j1: "join [CHR 0x0A] ([''note''] @ ?l7 # [''done''])
              = ''note'' @ [CHR 0x0A] @ ?l7 @ [CHR 0x0A] @ ''done''"
    by simp
  have h1: "(\<forall>l\<in>set ([''note''] @ ?l7 # [''done'']). CHR 0x0A \<notin> set l)
        \<and> str_includes ?l7 ''Compilation successful'' \<and> amx_match ?l7 = Some (Number 7)
        \<and> (\<forall>l\<in>set [''done'']. \<not> (str_includes l ''Compilation successful'' \<and> amx_match l \<noteq> None))"
    using m7 by simp
  from parse_success_marker_and_size [of "[''note'']" ?l7 "[''done'']" "Number 7"] h1
  have a: "success (parseCompilerOutput (join [CHR 0x0A] ([''note''] @ ?l7 # [''done''])))"
    and b: "amxSize (parseCompilerOutput (join [CHR 0x0A] ([''note''] @ ?l7 # [''done''])))
              = Some (Number 7)"
    by blast+
  let ?s = "''AMX file size: 7 bytes''"
  let ?c = "''Compilation successful!''"
  have j2: "join [CHR 0x0A] ([?s] @ ?c # []) = ?s @ [CHR 0x0A] @ ?c" by simp
  have mc: "amx_match ?c = None"
    by (simp add: match_here_def)
  have h2: "(\<forall>l\<in>set ([?s] @ ?c # []). CHR 0x0A \<notin> set l)
        \<and> str_includes ?c ''Compilation successful''"
    by simp
  from parse_success_marker_and_size [of "[?s]" ?c "[]"] h2
  have c: "success (parseCompilerOutput (join [CHR 0x0A] ([?s] @ ?c # [])))"
    by blast
  have h3: "[?s, ?c] \<noteq> [] \<and> (\<forall>l\<in>set [?s, ?c]. CHR 0x0A \<notin> set l)
        \<and> (\<forall>l\<in>set [?s, ?c]. \<not> (str_includes l ''Compilation successful'' \<and> amx_match l \<noteq> None))"
    using mc by simp
  from parse_success_marker_and_size [where ls = "[?s, ?c]"] h3
  have d: "amxSize (parseCompilerOutput (join [CHR 0x0A] [?s, ?c])) = None"
    by blast
  have h4: "''9007199254740993'' \<noteq> [] \<and> (\<forall>c\<in>set ''9007199254740993''. is_digit c)"
    by (simp add: is_digit_def)
  from parse_success_marker_and_size [where ds = "''9007199254740993''"] h4
  have e: "amxSize (parseCompilerOutput
        (''Compilation successful! AMX file size: '' @ ''9007199254740993'' @ '' bytes'' @ [CHR 0x0A]))
       = Some (parseInt ''9007199254740993'')"
    by blast
  from a b show ?thesis
    using c d e unfolding j1 j2 parseInt_rounds by simp
qed

text \<open>
  Claim C6, as the specification states it, fails: the loop appends the trimmed line, so a
  line with white space at an end is not itself in the list.
\<close>

theorem errors_line_not_verbatim_counterexample:
  "'' error: x'' \<in> set (output_lines '' error: x'')
   \<and> str_includes '' error: x'' ''error'' \<and> str_includes '' error: x'' '':''
   \<and> '' error: x'' \<notin> set (errors (parseCompilerOutput '' error: x''))"
  by (simp add: errors_parse output_lines_def is_error_line_def trim_def is_space_def)

text \<open>
  Claim C6, amended. The errors are the lines that contain both \<^verbatim>\<open>error\<close> and a colon,
  each with the white space at its ends removed, in line order; the warnings are the lines
  that contain both \<^verbatim>\<open>warning\<close> and a colon, likewise (so one line can be in both
  lists); the result is a failure when no line contains the success marker. When the
  output has the line \<^verbatim>\<open>input.pwn(3) : error 017: undefined symbol\<close> and no success
  marker, the result is a failure and that very line is among the errors.
\<close>

theorem errors_warnings_trimmed_lines:
  "errors (parseCompilerOutput out)
     = map trim (filter (\<lambda>l. str_includes l ''error'' \<and> str_includes l '':'') (output_lines out))
   \<and> warnings (parseCompilerOutput out)
     = map trim (filter (\<lambda>l. str_includes l ''warning'' \<and> str_includes l '':'') (output_lines out))
   \<and> (\<not> (\<exists>l\<in>set (output_lines out). str_includes l ''Compilation successful'')
        \<longrightarrow> \<not> success (parseCompilerOutput out))
   \<and> (''input.pwn(3) : error 017: undefined symbol'' \<in> set (output_lines out)
        \<and> \<not> (\<exists>l\<in>set (output_lines out). str_includes l ''Compilation successful'')
        \<longrightarrow> \<not> success (parseCompilerOutput out)
            \<and> ''input.pwn(3) : error 017: undefined symbol'' \<in> set (errors (parseCompilerOutput out)))"
proof (intro conjI impI)
  show "errors (parseCompilerOutput out)
     = map trim (filter (\<lambda>l. str_includes l ''error'' \<and> str_includes l '':'') (output_lines out))"
    using errors_parse [of out] unfolding is_error_line_def .
  show "warnings (parseCompilerOutput out)
     = map trim (filter (\<lambda>l. str_includes l ''warning'' \<and> str_includes l '':'') (output_lines out))"
    using warnings_parse [of out] unfolding is_warning_line_def .
  show "\<not> success (parseCompilerOutput out)"
    if "\<not> (\<exists>l\<in>set (output_lines out). str_includes l ''Compilation successful'')"
    using that by (simp add: success_iff_marker has_marker_def)
  show "\<not> success (parseCompilerOutput out)"
    if "''input.pwn(3) : error 017: undefined symbol'' \<in> set (output_lines out)
        \<and> \<not> (\<exists>l\<in>set (output_lines out). str_includes l ''Compilation successful'')"
    using that by (simp add: success_iff_marker has_marker_def)
  show "''input.pwn(3) : error 017: undefined symbol'' \<in> set (errors (parseCompilerOutput out))"
    if a: "''input.pwn(3) : error 017: undefined symbol'' \<in> set (output_lines out)
        \<and> \<not> (\<exists>l\<in>set (output_lines out). str_includes l ''Compilation successful'')"
  proof -
    have e: "is_error_line ''input.pwn(3) : error 017: undefined symbol''"
      by (simp add: is_error_line_def)
    have t: "trim ''input.pwn(3) : error 017: undefined symbol''
               = ''input.pwn(3) : error 017: undefined symbol''"
      by (simp add: trim_def is_space_def)
    from a e have "''input.pwn(3) : error 017: undefined symbol''
                     \<in> set (filter is_error_line (output_lines out))"
      by simp
    then have "trim ''input.pwn(3) : error 017: undefined symbol''
                 \<in> set (map trim (filter is_error_line (output_lines out)))"
      unfolding set_map by (rule imageI)
    then show ?thesis
      by (simp only: t errors_parse)
  qed
qed

theorem errors_warnings_trimmed_lines_witness:
  "\<not> success (parseCompilerOutput
       (''input.pwn(3) : error 017: undefined symbol'' @ [CHR 0x0D, CHR 0x0A] @ ''1 Error.''))
   \<and> ''input.pwn(3) : error 017: undefined symbol''
        \<in> set (errors (parseCompilerOutput
             (''input.pwn(3) : error 017: undefined symbol'' @ [CHR 0x0A] @ ''1 Error.'')))"
  using errors_warnings_trimmed_lines
    [of "''input.pwn(3) : error 017: undefined symbol'' @ [CHR 0x0D, CHR 0x0A] @ ''1 Error.''"]
    errors_warnings_trimmed_lines
    [of "''input.pwn(3) : error 017: undefined symbol'' @ [CHR 0x0A] @ ''1 Error.''"]
  by (simp add: output_lines_def trim_def is_space_def)


section \<open>Properties of the option marshaler\<close>

lemma string_of_int_digits:
  "string_of_int 0 = ''0''" "string_of_int 2 = ''2''" "string_of_int 3 = ''3''"
  by (simp_all add: string_of_int_def string_of_nat.simps digit_char_def)

text \<open>
  Claim C4. The flags are, in this order: the optimization flag when the level is present,
  the debug flag when the level is present, the include flag \<^verbatim>\<open>-i/include\<close>, then the
  additional flags as the caller gave them; the option string is these joined by spaces.
  The input path is not among them unless the caller put it among the additional flags.
  For the levels 2 and 3 and the one additional flag \<^verbatim>\<open>-Z+\<close> the option string is
  \<^verbatim>\<open>-O2 -d3 -i/include -Z+\<close>.
\<close>

theorem marshal_flag_order:
  "optionsArray options =
       (case optimizationLevel options of None \<Rightarrow> [] | Some n \<Rightarrow> [''-O'' @ string_of_int n])
     @ (case debugLevel options of None \<Rightarrow> [] | Some n \<Rightarrow> [''-d'' @ string_of_int n])
     @ [''-i/include'']
     @ (case additionalFlags options of None \<Rightarrow> [] | Some fl \<Rightarrow> fl)
   \<and> optionsString options = join '' '' (optionsArray options)
   \<and> ((\<forall>fl. additionalFlags options = Some fl \<longrightarrow> ''/input.pwn'' \<notin> set fl)
        \<longrightarrow> ''/input.pwn'' \<notin> set (optionsArray options))
   \<and> optionsString \<lparr>optimizationLevel = Some 2, debugLevel = Some 3,
                      additionalFlags = Some [''-Z+'']\<rparr> = ''-O2 -d3 -i/include -Z+''"
proof (intro conjI impI)
  show "optionsArray options =
       (case optimizationLevel options of None \<Rightarrow> [] | Some n \<Rightarrow> [''-O'' @ string_of_int n])
     @ (case debugLevel options of None \<Rightarrow> [] | Some n \<Rightarrow> [''-d'' @ string_of_int n])
     @ [''-i/include'']
     @ (case additionalFlags options of None \<Rightarrow> [] | Some fl \<Rightarrow> fl)"
    by (simp add: optionsArray_def Let_def split: option.splits)
  show "optionsString options = join '' '' (optionsArray options)"
    by (rule optionsString_def)
  show "''/input.pwn'' \<notin> set (optionsArray options)"
    if "\<forall>fl. additionalFlags options = Some fl \<longrightarrow> ''/input.pwn'' \<notin> set fl"
    using that by (simp add: optionsArray_def Let_def split: option.splits)
  show "optionsString \<lparr>optimizationLevel = Some 2, debugLevel = Some 3,
                      additionalFlags = Some [''-Z+'']\<rparr> = ''-O2 -d3 -i/include -Z+''"
    by (simp add: optionsString_def optionsArray_def string_of_int_def string_of_nat.simps digit_char_def)
qed

theorem marshal_flag_order_witness:
  "optionsArray \<lparr>optimizationLevel = Some 2, debugLevel = Some 3, additionalFlags = Some [''-Z+'']\<rparr>
     = [''-O2'', ''-d3'', ''-i/include'', ''-Z+'']
   \<and> ''/input.pwn'' \<notin> set (optionsArray \<lparr>optimizationLevel = Some 2, debugLevel = Some 3,
                                            additionalFlags = Some [''-Z+'']\<rparr>)"
  using marshal_flag_order
      [of "\<lparr>optimizationLevel = Some 2, debugLevel = Some 3, additionalFlags = Some [''-Z+'']\<rparr>"]
  by (simp add: string_of_int_digits)


section \<open>Properties of the argument vector\<close>

lemma split_on_not_Nil: "split_on c s \<noteq> []"
  by (induction s) (auto split: list.splits)

lemma split_on_span:
  "split_on c s = takeWhile (\<lambda>x. x \<noteq> c) s #
     (case dropWhile (\<lambda>x. x \<noteq> c) s of [] \<Rightarrow> [] | d # r \<Rightarrow> split_on c r)"
  by (induction s) (auto split: list.splits simp: split_on_not_Nil)

lemma option_tokens_space: "option_tokens (CHR '' '' # s) = option_tokens s"
  by (simp add: option_tokens_def)

lemma option_tokens_skip: "option_tokens (dropWhile (\<lambda>c. c = CHR '' '') s) = option_tokens s"
  by (induction s) (auto simp: option_tokens_space)

lemma option_tokens_Nil: "option_tokens [] = []"
  by (simp add: option_tokens_def)

lemma option_tokens_strtok_None:
  assumes "strtok s = None"
  shows "option_tokens s = []"
proof -
  from assms have "dropWhile (\<lambda>c. c = CHR '' '') s = []"
    unfolding strtok_def Let_def by (simp split: if_splits)
  then have "option_tokens (dropWhile (\<lambda>c. c = CHR '' '') s) = []"
    by (simp only: option_tokens_Nil)
  then show ?thesis
    by (simp only: option_tokens_skip)
qed

lemma option_tokens_word:
  assumes "s1 \<noteq> []" "hd s1 \<noteq> CHR '' ''"
  shows "option_tokens s1 = takeWhile (\<lambda>c. c \<noteq> CHR '' '') s1
           # option_tokens (drop 1 (dropWhile (\<lambda>c. c \<noteq> CHR '' '') s1))"
proof -
  define w where "w = takeWhile (\<lambda>c. c \<noteq> CHR '' '') s1"
  define d where "d = dropWhile (\<lambda>c. c \<noteq> CHR '' '') s1"
  have tw: "w \<noteq> []"
    using assms unfolding w_def by (cases s1) auto
  have sp: "split_on (CHR '' '') s1 = w # (case d of [] \<Rightarrow> [] | x # r \<Rightarrow> split_on (CHR '' '') r)"
    unfolding w_def d_def by (rule split_on_span)
  have "filter (\<lambda>t. t \<noteq> []) (case d of [] \<Rightarrow> [] | x # r \<Rightarrow> split_on (CHR '' '') r)
          = option_tokens (drop 1 d)"
    by (cases d) (simp_all add: option_tokens_def)
  then have "option_tokens s1 = w # option_tokens (drop 1 d)"
    using tw by (simp add: option_tokens_def sp)
  then show ?thesis
    unfolding w_def d_def .
qed

lemma option_tokens_strtok_Some:
  assumes "strtok s = Some (t, rest)"
  shows "option_tokens s = t # option_tokens rest"
proof -
  let ?s1 = "dropWhile (\<lambda>c. c = CHR '' '') s"
  from assms have ne: "?s1 \<noteq> []"
    and t: "t = takeWhile (\<lambda>c. c \<noteq> CHR '' '') ?s1"
    and r: "rest = drop 1 (dropWhile (\<lambda>c. c \<noteq> CHR '' '') ?s1)"
    by (auto simp: strtok_def Let_def split: if_splits)
  have "hd ?s1 \<noteq> CHR '' ''"
    using ne hd_dropWhile [of "\<lambda>c. c = CHR '' ''" s] by blast
  with ne have "option_tokens ?s1 = t # option_tokens rest"
    unfolding t r by (rule option_tokens_word)
  then show ?thesis
    by (simp add: option_tokens_skip)
qed

lemma token_loop_take:
  "length argv \<le> 30 \<Longrightarrow> t = strtok s \<Longrightarrow>
     token_loop argv t = argv @ take (30 - length argv) (option_tokens s)"
proof (induction argv t arbitrary: s rule: token_loop.induct)
  case (1 argv)
  then show ?case by (simp add: option_tokens_strtok_None)
next
  case (2 argv token rest)
  from "2.prems" have ot: "option_tokens s = token # option_tokens rest"
    by (simp add: option_tokens_strtok_Some)
  show ?case
  proof (cases "length argv < 30")
    case True
    then have "token_loop (argv @ [token]) (strtok rest)
                 = (argv @ [token]) @ take (30 - length (argv @ [token])) (option_tokens rest)"
      by (intro "2.IH") auto
    moreover have "30 - length argv = Suc (30 - length (argv @ [token]))"
      using True by simp
    ultimately show ?thesis
      using True ot by simp
  next
    case False
    with "2.prems" have "length argv = 30" by simp
    then show ?thesis by simp
  qed
qed

lemma pawncl_argv_Some:
  "pawncl_argv (Some opts) =
     [''pawncc'', ''-o/output.amx''] @ take 28 (option_tokens (c_string opts)) @ [''/input.pwn'']"
proof (cases "c_string opts = []")
  case True
  then show ?thesis by (simp add: pawncl_argv_def option_tokens_Nil)
next
  case False
  have "token_loop [''pawncc'', ''-o/output.amx''] (strtok (c_string opts))
          = [''pawncc'', ''-o/output.amx''] @ take (30 - length [''pawncc'', ''-o/output.amx'']) (option_tokens (c_string opts))"
    by (rule token_loop_take) auto
  with False show ?thesis by (simp add: pawncl_argv_def)
qed

text \<open>
  Claim C10, as the specification states it, fails: the tokens are separated by the space
  character alone, not by white space. With a tab inside each of 28 space-separated pieces,
  56 white-space-separated tokens reach the argument vector, in 28 entries; and a tab
  between two flags makes one entry of them.
\<close>

theorem pawncl_argv_whitespace_counterexample:
  "pawncl_argv (Some (concat (replicate 28 (''p'' @ [CHR 0x09] @ ''q '')) @ ''last''))
     = [''pawncc'', ''-o/output.amx''] @ replicate 28 (''p'' @ [CHR 0x09] @ ''q'') @ [''/input.pwn'']
   \<and> length (concat (map whitespace_tokens (replicate 28 (''p'' @ [CHR 0x09] @ ''q'')))) = 56
   \<and> pawncl_argv (Some (''a'' @ [CHR 0x09] @ ''b'')) = [''pawncc'', ''-o/output.amx'', ''a'' @ [CHR 0x09] @ ''b'', ''/input.pwn'']
   \<and> whitespace_tokens (''a'' @ [CHR 0x09] @ ''b'') = [''a'', ''b'']"
proof -
  have r: "replicate 28 x = [x,x,x,x,x,x,x,x,x,x,x,x,x,x,x,x,x,x,x,x,x,x,x,x,x,x,x,x]" for x :: string
    by (simp add: eval_nat_numeral)
  have a: "pawncl_argv (Some (concat (replicate 28 (''p'' @ [CHR 0x09] @ ''q '')) @ ''last''))
     = [''pawncc'', ''-o/output.amx''] @ replicate 28 (''p'' @ [CHR 0x09] @ ''q'') @ [''/input.pwn'']"
    unfolding pawncl_argv_Some r by (simp add: option_tokens_def c_string_def)
  have b: "length (concat (map whitespace_tokens (replicate 28 (''p'' @ [CHR 0x09] @ ''q'')))) = 56"
    unfolding r by (simp add: whitespace_tokens_def is_c_space_def)
  have c: "pawncl_argv (Some (''a'' @ [CHR 0x09] @ ''b'')) = [''pawncc'', ''-o/output.amx'', ''a'' @ [CHR 0x09] @ ''b'', ''/input.pwn'']"
    unfolding pawncl_argv_Some by (simp add: option_tokens_def c_string_def)
  have d: "whitespace_tokens (''a'' @ [CHR 0x09] @ ''b'') = [''a'', ''b'']"
    by (simp add: whitespace_tokens_def is_c_space_def)
  from a b c d show ?thesis by blast
qed

text \<open>
  Claim C10, amended. The argument vector is the program name, the output flag, the first
  28 option tokens of the option string and the input path, where the option string ends at
  its first NUL and a token is a maximal run of characters other than the space (a tab or a
  line feed does not separate tokens); a further token is dropped, and the input path is
  always the last entry. The vector never has more than 31 entries.
\<close>

theorem pawncl_argv_truncates:
  "pawncl_argv (Some opts)
     = [''pawncc'', ''-o/output.amx''] @ take 28 (option_tokens (c_string opts)) @ [''/input.pwn'']
   \<and> pawncl_argv None = [''pawncc'', ''-o/output.amx'', ''/input.pwn'']
   \<and> length (pawncl_argv options) \<le> 31
   \<and> last (pawncl_argv options) = ''/input.pwn''"
proof (intro conjI)
  show "pawncl_argv (Some opts)
     = [''pawncc'', ''-o/output.amx''] @ take 28 (option_tokens (c_string opts)) @ [''/input.pwn'']"
    by (rule pawncl_argv_Some)
  show "pawncl_argv None = [''pawncc'', ''-o/output.amx'', ''/input.pwn'']"
    by (simp add: pawncl_argv_def)
  show "length (pawncl_argv options) \<le> 31"
    by (cases options) (simp_all add: pawncl_argv_Some, simp add: pawncl_argv_def)
  show "last (pawncl_argv options) = ''/input.pwn''"
    by (cases options) (simp_all add: pawncl_argv_Some, simp add: pawncl_argv_def)
qed

theorem pawncl_argv_truncates_witness:
  "pawncl_argv (Some ''-O2 -d3 -i/include  a b c d e f g h i j k l m n o p q r s t u v w x y z'')
     = [''pawncc'', ''-o/output.amx'', ''-O2'', ''-d3'', ''-i/include'', ''a'', ''b'', ''c'', ''d'',
        ''e'', ''f'', ''g'', ''h'', ''i'', ''j'', ''k'', ''l'', ''m'', ''n'', ''o'', ''p'', ''q'',
        ''r'', ''s'', ''t'', ''u'', ''v'', ''w'', ''x'', ''y'', ''/input.pwn'']"
  using pawncl_argv_truncates
    [of "''-O2 -d3 -i/include  a b c d e f g h i j k l m n o p q r s t u v w x y z''"]
  by (simp add: option_tokens_def c_string_def)


section \<open>Properties of the include store\<close>

lemma mkdir_Inr:
  "mkdir fs path = Inr fs' \<Longrightarrow> fs' = fs(resolve path \<mapsto> Dir) \<and> node_at fs (resolve path) = None"
  by (auto simp: mkdir_def Let_def split: if_splits)

lemma mkdir_exists: "exists_path fs path \<Longrightarrow> mkdir fs path = Inl EEXIST"
  by (simp add: mkdir_def exists_path_def Let_def)

lemma mkdir_Inl_cases:
  "mkdir fs path = Inl err \<Longrightarrow>
     (exists_path fs path \<and> err = EEXIST) \<or> (\<not> exists_path fs path \<and> err = parent_error fs (resolve path))"
  by (auto simp: mkdir_def exists_path_def Let_def split: if_splits)

lemma parent_error_not_exist:
  "errno (parent_error fs p) \<noteq> 17 \<and> \<not> str_includes (message (parent_error fs p)) ''File exists''"
  by (simp add: parent_error_def ENOENT_def ENOTDIR_def)

lemma node_at_upd_other: "p \<noteq> q \<Longrightarrow> node_at (fs(q := v)) p = node_at fs p"
  by (simp add: node_at_def)

lemma node_at_upd_same: "q \<noteq> [] \<Longrightarrow> node_at (fs(q := v)) q = v"
  by (simp add: node_at_def)

lemma node_at_upd_keep:
  "node_at fs p \<noteq> None \<Longrightarrow> node_at fs q = None \<Longrightarrow> node_at (fs(q \<mapsto> n)) p = node_at fs p"
  by (auto simp: node_at_def split: if_splits)

lemma mkdir_loop_keeps:
  "mkdir_loop fs cur parts = (r, fs') \<Longrightarrow> node_at fs p \<noteq> None \<Longrightarrow> node_at fs' p = node_at fs p"
proof (induction parts arbitrary: fs cur)
  case Nil
  then show ?case by simp
next
  case (Cons part parts)
  let ?q = "cur @ ''/'' @ part"
  show ?case
  proof (cases "mkdir fs ?q")
    case (Inr fs1)
    then have fs1: "fs1 = fs(resolve ?q \<mapsto> Dir)" and n: "node_at fs (resolve ?q) = None"
      by (simp_all add: mkdir_Inr)
    have k: "node_at fs1 p = node_at fs p"
      unfolding fs1 using Cons.prems(2) n by (rule node_at_upd_keep)
    from Inr Cons.prems(1) have "mkdir_loop fs1 ?q parts = (r, fs')"
      by (simp add: Let_def)
    from Cons.IH [OF this] k Cons.prems(2) show ?thesis by simp
  next
    case (Inl err)
    with Cons.prems(1) have "(r, fs') = (Some err, fs) \<or> mkdir_loop fs ?q parts = (r, fs')"
      by (auto simp: Let_def split: if_splits)
    then show ?thesis
      using Cons.IH Cons.prems(2) by auto
  qed
qed

lemma exists_upd: "exists_path (fs(resolve q \<mapsto> n)) q"
  by (simp add: exists_path_def node_at_def)

lemma mkdir_loop_ensures:
  "mkdir_loop fs cur parts = (None, fs') \<Longrightarrow> \<forall>q\<in>set (dir_prefixes cur parts). exists_path fs' q"
proof (induction parts arbitrary: fs cur)
  case Nil
  then show ?case by simp
next
  case (Cons part parts)
  let ?q = "cur @ ''/'' @ part"
  obtain fs1 where l: "mkdir_loop fs1 ?q parts = (None, fs')" and e: "exists_path fs1 ?q"
  proof (cases "mkdir fs ?q")
    case (Inr fs1)
    then have "fs1 = fs(resolve ?q \<mapsto> Dir)" by (simp add: mkdir_Inr)
    then have "exists_path fs1 ?q" by (simp add: exists_upd)
    moreover from Inr Cons.prems have "mkdir_loop fs1 ?q parts = (None, fs')"
      by (simp add: Let_def)
    ultimately show ?thesis using that by blast
  next
    case (Inl err)
    from mkdir_Inl_cases [OF Inl] show ?thesis
    proof
      assume "exists_path fs ?q \<and> err = EEXIST"
      moreover with Inl Cons.prems have "mkdir_loop fs ?q parts = (None, fs')"
        by (simp add: Let_def EEXIST_def)
      ultimately show ?thesis using that by blast
    next
      assume "\<not> exists_path fs ?q \<and> err = parent_error fs (resolve ?q)"
      with Inl Cons.prems parent_error_not_exist [of fs "resolve ?q"] have False
        by (simp add: Let_def)
      then show ?thesis ..
    qed
  qed
  from e have "node_at fs1 (resolve ?q) \<noteq> None" by (simp add: exists_path_def)
  with mkdir_loop_keeps [OF l] have "node_at fs' (resolve ?q) \<noteq> None" by simp
  then have "exists_path fs' ?q" by (simp add: exists_path_def)
  with Cons.IH [OF l] show ?case by simp
qed

lemma mkdir_loop_all_exist:
  "\<forall>q\<in>set (dir_prefixes cur parts). exists_path fs q \<Longrightarrow> mkdir_loop fs cur parts = (None, fs)"
proof (induction parts arbitrary: cur)
  case Nil
  then show ?case by simp
next
  case (Cons part parts)
  then have "mkdir fs (cur @ ''/'' @ part) = Inl EEXIST"
    by (simp add: mkdir_exists)
  moreover from Cons have "mkdir_loop fs (cur @ ''/'' @ part) parts = (None, fs)"
    by simp
  ultimately show ?case
    by (simp add: Let_def EEXIST_def)
qed

lemma mkdir_loop_propagates:
  "mkdir fs (cur @ ''/'' @ part) = Inl err \<Longrightarrow> \<not> exists_path fs (cur @ ''/'' @ part) \<Longrightarrow>
     mkdir_loop fs cur (part # parts) = (Some err, fs)"
  using mkdir_Inl_cases [of fs "cur @ ''/'' @ part" err]
    parent_error_not_exist [of fs "resolve (cur @ ''/'' @ part)"]
  by (simp add: Let_def)

lemma mkdir_loop_already_exists:
  "mkdir fs (cur @ ''/'' @ part) = Inl err \<Longrightarrow> exists_path fs (cur @ ''/'' @ part) \<Longrightarrow>
     mkdir_loop fs cur (part # parts) = mkdir_loop fs (cur @ ''/'' @ part) parts"
  by (simp add: Let_def)

lemma loop_guard:
  "(if length parts > 1 then mkdir_loop fs cur (butlast parts) else (None, fs))
     = mkdir_loop fs cur (butlast parts)"
proof (cases "length parts > 1")
  case True
  then show ?thesis by simp
next
  case False
  then have "butlast parts = []"
    by (cases parts) (auto split: if_splits)
  with False show ?thesis by simp
qed

lemma addIncludeFile_unfold:
  assumes "compilerModule w = Some m"
  shows "addIncludeFile w filename content =
     (case mkdir_loop (FS m) ''/include'' (dir_parts filename) of
        (Some err, fs1) \<Rightarrow> (Some (ErrnoError err), set_FS w m fs1)
      | (None, fs1) \<Rightarrow>
         (case (if exists_path fs1 (include_path filename)
                then unlink fs1 (include_path filename) else Inr fs1) of
            Inl err \<Rightarrow> (Some (ErrnoError err), set_FS w m fs1)
          | Inr fs2 \<Rightarrow>
              (case writeFile fs2 (include_path filename) content of
                 Inl err \<Rightarrow> (Some (ErrnoError err), set_FS w m fs2)
               | Inr fs3 \<Rightarrow> (None, set_FS w m fs3))))"
  unfolding addIncludeFile_def Let_def loop_guard dir_parts_def include_path_def
  using assms by (simp split: prod.splits option.splits)

lemma writeFile_Inr:
  assumes "writeFile fs path content = Inr fs'"
  shows "fs' = fs(resolve path \<mapsto> File content)" "resolve path \<noteq> []"
    "node_at fs (resolve path) = None \<Longrightarrow> node_at fs (butlast (resolve path)) = Some Dir"
  using assms
  by (auto simp: writeFile_def Let_def node_at_def split: option.splits node.splits if_splits)

lemma readFile_after_write:
  "writeFile fs path content = Inr fs' \<Longrightarrow> readFile fs' path = Inr content"
  by (auto simp: writeFile_def readFile_def Let_def node_at_def
           split: option.splits node.splits if_splits)

lemma pre_write_absent:
  assumes "(if exists_path fs1 path then unlink fs1 path else Inr fs1) = Inr fs2"
  shows "node_at fs2 (resolve path) = None \<or> resolve path = []"
    and "\<And>p. p \<noteq> resolve path \<Longrightarrow> node_at fs2 p = node_at fs1 p"
  using assms
  by (auto simp: exists_path_def unlink_def Let_def node_at_def
           split: if_splits option.splits node.splits)

lemma addIncludeFile_success:
  assumes "addIncludeFile w filename content = (None, w')"
  obtains m fs1 fs2 where "compilerModule w = Some m"
    and "mkdir_loop (FS m) ''/include'' (dir_parts filename) = (None, fs1)"
    and "(if exists_path fs1 (include_path filename)
          then unlink fs1 (include_path filename) else Inr fs1) = Inr fs2"
    and "writeFile fs2 (include_path filename) content
           = Inr (fs2(resolve (include_path filename) \<mapsto> File content))"
    and "w' = set_FS w m (fs2(resolve (include_path filename) \<mapsto> File content))"
proof (cases "compilerModule w")
  case None
  with assms show ?thesis by (simp add: addIncludeFile_def)
next
  case (Some m)
  from assms show ?thesis
    unfolding addIncludeFile_unfold [OF Some]
    using Some that
    by (auto split: prod.splits option.splits sum.splits dest: writeFile_Inr(1))
qed

lemma set_FS_module: "compilerModule (set_FS w m fs) = Some (m\<lparr>FS := fs\<rparr>)"
  by (simp add: set_FS_def)

lemma addIncludeFile_content:
  assumes "addIncludeFile w filename content = (None, w')"
  shows "include_content w' filename = Some content"
proof -
  from assms obtain m fs2 where
    wr: "writeFile fs2 (include_path filename) content
           = Inr (fs2(resolve (include_path filename) \<mapsto> File content))"
    and w': "w' = set_FS w m (fs2(resolve (include_path filename) \<mapsto> File content))"
    by (rule addIncludeFile_success)
  from wr have "readFile (fs2(resolve (include_path filename) \<mapsto> File content))
                  (include_path filename) = Inr content"
    by (rule readFile_after_write)
  then show ?thesis
    by (simp add: include_content_def w' set_FS_module include_path_def)
qed

lemma addIncludeFile_dirs:
  assumes "addIncludeFile w filename content = (None, w')"
  shows "\<exists>m'. compilerModule w' = Some m'
           \<and> (\<forall>q\<in>set (dir_prefixes ''/include'' (dir_parts filename)). exists_path (FS m') q)"
proof -
  from assms obtain m fs1 fs2 where
    l: "mkdir_loop (FS m) ''/include'' (dir_parts filename) = (None, fs1)"
    and u: "(if exists_path fs1 (include_path filename)
             then unlink fs1 (include_path filename) else Inr fs1) = Inr fs2"
    and w': "w' = set_FS w m (fs2(resolve (include_path filename) \<mapsto> File content))"
    by (rule addIncludeFile_success)
  let ?t = "resolve (include_path filename)"
  have "exists_path (fs2(?t \<mapsto> File content)) q"
    if "q \<in> set (dir_prefixes ''/include'' (dir_parts filename))" for q
  proof (cases "resolve q = ?t")
    case True
    then show ?thesis by (simp add: exists_path_def node_at_def)
  next
    case False
    from mkdir_loop_ensures [OF l] that have "node_at fs1 (resolve q) \<noteq> None"
      by (simp add: exists_path_def)
    with pre_write_absent(2) [OF u False] have "node_at fs2 (resolve q) \<noteq> None"
      by simp
    with False show ?thesis
      by (auto simp: exists_path_def node_at_def split: if_splits)
  qed
  then show ?thesis
    by (simp add: w' set_FS_module)
qed

lemma addIncludeFile_again:
  assumes "addIncludeFile w filename c1 = (None, w1)"
  shows "\<exists>w2. addIncludeFile w1 filename c2 = (None, w2)"
proof -
  from assms obtain m fs1 fs2 where
    l: "mkdir_loop (FS m) ''/include'' (dir_parts filename) = (None, fs1)"
    and u: "(if exists_path fs1 (include_path filename)
             then unlink fs1 (include_path filename) else Inr fs1) = Inr fs2"
    and wr: "writeFile fs2 (include_path filename) c1
           = Inr (fs2(resolve (include_path filename) \<mapsto> File c1))"
    and w1: "w1 = set_FS w m (fs2(resolve (include_path filename) \<mapsto> File c1))"
    by (rule addIncludeFile_success)
  let ?t = "resolve (include_path filename)"
  let ?fs3 = "fs2(?t \<mapsto> File c1)"
  let ?m1 = "m\<lparr>FS := ?fs3\<rparr>"
  have m1: "compilerModule w1 = Some ?m1"
    by (simp add: w1 set_FS_module)
  from assms have "\<exists>m'. compilerModule w1 = Some m'
           \<and> (\<forall>q\<in>set (dir_prefixes ''/include'' (dir_parts filename)). exists_path (FS m') q)"
    by (rule addIncludeFile_dirs)
  with m1 have "\<forall>q\<in>set (dir_prefixes ''/include'' (dir_parts filename)). exists_path ?fs3 q"
    by simp
  then have loop2: "mkdir_loop (FS ?m1) ''/include'' (dir_parts filename) = (None, ?fs3)"
    by (simp add: mkdir_loop_all_exist)
  have t: "?t \<noteq> []"
    using wr by (rule writeFile_Inr(2))
  from pre_write_absent(1) [OF u] t have absent: "node_at fs2 ?t = None"
    by blast
  have parent: "node_at fs2 (butlast ?t) = Some Dir"
    using wr absent by (rule writeFile_Inr(3))
  have neq: "butlast ?t \<noteq> ?t"
    using t by (metis append_butlast_last_id append_self_conv not_Cons_self2)
  have ex: "exists_path ?fs3 (include_path filename)"
    using t by (simp add: exists_path_def node_at_def)
  have un: "unlink ?fs3 (include_path filename) = Inr (fs2(?t := None))"
    using t by (simp add: unlink_def node_at_def)
  have "node_at (fs2(?t := None)) ?t = None"
    using t by (simp add: node_at_def)
  moreover have "node_at (fs2(?t := None)) (butlast ?t) = Some Dir"
    using parent neq by (simp add: node_at_upd_other)
  ultimately have wr2: "writeFile (fs2(?t := None)) (include_path filename) c2
                          = Inr (fs2(?t \<mapsto> File c2))"
    by (simp add: writeFile_def Let_def)
  have "FS ?m1 = ?fs3" by simp
  with loop2 have loop2': "mkdir_loop ?fs3 ''/include'' (dir_parts filename) = (None, ?fs3)"
    by simp
  have "addIncludeFile w1 filename c2 = (None, set_FS w1 ?m1 (fs2(?t \<mapsto> File c2)))"
    by (simp add: addIncludeFile_unfold [OF m1] loop2' ex un wr2)
  then show ?thesis ..
qed

lemma unlink_removes:
  "unlink fs path = Inr fs' \<Longrightarrow> \<not> exists_path fs' path"
  by (auto simp: unlink_def exists_path_def Let_def node_at_def
           split: option.splits node.splits if_splits)

text \<open>
  Claim C7. When \<^verbatim>\<open>addIncludeFile\<close> returns, every directory prefix of the path exists
  and the store holds the content at the path; a second call for the same path with other
  content returns as well and leaves exactly the second content (last write wins). In the
  loop, a failed \<^verbatim>\<open>mkdir\<close> for a path that exists counts as success, any other failed
  \<^verbatim>\<open>mkdir\<close> ends the loop with its error, and \<^verbatim>\<open>addIncludeFile\<close> throws that
  error. A file that exists at the target path is removed, so that it is absent when the
  content is written.
\<close>

theorem addIncludeFile_last_write_wins:
  "(addIncludeFile w filename c1 = (None, w1)
      \<longrightarrow> (\<exists>m1. compilerModule w1 = Some m1
                \<and> (\<forall>q\<in>set (dir_prefixes ''/include'' (dir_parts filename)). exists_path (FS m1) q))
          \<and> include_content w1 filename = Some c1
          \<and> (\<exists>w2. addIncludeFile w1 filename c2 = (None, w2)
                    \<and> include_content w2 filename = Some c2))
   \<and> (mkdir fs (cur @ ''/'' @ part) = Inl err \<and> exists_path fs (cur @ ''/'' @ part)
        \<longrightarrow> mkdir_loop fs cur (part # parts) = mkdir_loop fs (cur @ ''/'' @ part) parts)
   \<and> (mkdir fs (cur @ ''/'' @ part) = Inl err \<and> \<not> exists_path fs (cur @ ''/'' @ part)
        \<longrightarrow> mkdir_loop fs cur (part # parts) = (Some err, fs))
   \<and> (compilerModule w = Some m
        \<and> mkdir_loop (FS m) ''/include'' (dir_parts filename) = (Some err, fs')
        \<longrightarrow> addIncludeFile w filename c1 = (Some (ErrnoError err), set_FS w m fs'))
   \<and> (compilerModule w = Some m
        \<and> mkdir_loop (FS m) ''/include'' (dir_parts filename) = (None, fs1)
        \<and> exists_path fs1 (include_path filename)
        \<and> unlink fs1 (include_path filename) = Inr fs2
        \<longrightarrow> \<not> exists_path fs2 (include_path filename)
            \<and> addIncludeFile w filename c1
                = (case writeFile fs2 (include_path filename) c1 of
                     Inl err \<Rightarrow> (Some (ErrnoError err), set_FS w m fs2)
                   | Inr fs3 \<Rightarrow> (None, set_FS w m fs3)))"
proof (intro conjI impI)
  assume a: "addIncludeFile w filename c1 = (None, w1)"
  show "\<exists>m1. compilerModule w1 = Some m1
          \<and> (\<forall>q\<in>set (dir_prefixes ''/include'' (dir_parts filename)). exists_path (FS m1) q)"
    using a by (rule addIncludeFile_dirs)
  show "include_content w1 filename = Some c1"
    using a by (rule addIncludeFile_content)
  from addIncludeFile_again [OF a, of c2] obtain w2
    where b: "addIncludeFile w1 filename c2 = (None, w2)" ..
  then have "include_content w2 filename = Some c2"
    by (rule addIncludeFile_content)
  with b show "\<exists>w2. addIncludeFile w1 filename c2 = (None, w2)
                  \<and> include_content w2 filename = Some c2"
    by blast
next
  assume "mkdir fs (cur @ ''/'' @ part) = Inl err \<and> exists_path fs (cur @ ''/'' @ part)"
  then have "mkdir fs (cur @ ''/'' @ part) = Inl err" and "exists_path fs (cur @ ''/'' @ part)"
    by blast+
  then show "mkdir_loop fs cur (part # parts) = mkdir_loop fs (cur @ ''/'' @ part) parts"
    by (rule mkdir_loop_already_exists)
next
  assume "mkdir fs (cur @ ''/'' @ part) = Inl err \<and> \<not> exists_path fs (cur @ ''/'' @ part)"
  then have "mkdir fs (cur @ ''/'' @ part) = Inl err" and "\<not> exists_path fs (cur @ ''/'' @ part)"
    by blast+
  then show "mkdir_loop fs cur (part # parts) = (Some err, fs)"
    by (rule mkdir_loop_propagates)
next
  assume "compilerModule w = Some m
        \<and> mkdir_loop (FS m) ''/include'' (dir_parts filename) = (Some err, fs')"
  then show "addIncludeFile w filename c1 = (Some (ErrnoError err), set_FS w m fs')"
    by (simp add: addIncludeFile_unfold)
next
  assume a: "compilerModule w = Some m
        \<and> mkdir_loop (FS m) ''/include'' (dir_parts filename) = (None, fs1)
        \<and> exists_path fs1 (include_path filename)
        \<and> unlink fs1 (include_path filename) = Inr fs2"
  then show "\<not> exists_path fs2 (include_path filename)"
    by (blast dest: unlink_removes)
  from a show "addIncludeFile w filename c1
                = (case writeFile fs2 (include_path filename) c1 of
                     Inl err \<Rightarrow> (Some (ErrnoError err), set_FS w m fs2)
                   | Inr fs3 \<Rightarrow> (None, set_FS w m fs3))"
    by (simp add: addIncludeFile_unfold)
qed

lemma resolve_examples:
  "resolve ''/include'' = [''include'']"
  "resolve ''/include/lib'' = [''include'', ''lib'']"
  "resolve ''/include/lib/a.inc'' = [''include'', ''lib'', ''a.inc'']"
  by (simp_all add: resolve_def resolve_step_def)

lemma addIncludeFile_example:
  "addIncludeFile (initial\<lparr>compilerModule := Some \<lparr>FS = [[''include''] \<mapsto> Dir]\<rparr>\<rparr>)
       ''lib/a.inc'' ''first, longer''
     = (None, initial\<lparr>compilerModule := Some \<lparr>FS =
          [[''include''] \<mapsto> Dir, [''include'', ''lib''] \<mapsto> Dir,
           [''include'', ''lib'', ''a.inc''] \<mapsto> File ''first, longer'']\<rparr>\<rparr>)"
  by (simp add: addIncludeFile_def Let_def initial_def set_FS_def mkdir_def exists_path_def
        writeFile_def node_at_def resolve_examples)

lemma mkdir_no_parent:
  "mkdir Map.empty ''/include/lib'' = Inl ENOENT"
  by (simp add: mkdir_def node_at_def resolve_examples parent_error_def)

theorem addIncludeFile_last_write_wins_witness:
  "include_content
     (snd (addIncludeFile
        (snd (addIncludeFile (initial\<lparr>compilerModule := Some \<lparr>FS = [[''include''] \<mapsto> Dir]\<rparr>\<rparr>)
                ''lib/a.inc'' ''first, longer''))
        ''lib/a.inc'' ''second''))
     ''lib/a.inc'' = Some ''second''
   \<and> addIncludeFile (initial\<lparr>compilerModule := Some \<lparr>FS = Map.empty\<rparr>\<rparr>) ''lib/a.inc'' ''text''
       = (Some (ErrnoError ENOENT), initial\<lparr>compilerModule := Some \<lparr>FS = Map.empty\<rparr>\<rparr>)"
proof -
  let ?w = "initial\<lparr>compilerModule := Some \<lparr>FS = [[''include''] \<mapsto> Dir]\<rparr>\<rparr>"
  let ?w1 = "initial\<lparr>compilerModule := Some \<lparr>FS =
          [[''include''] \<mapsto> Dir, [''include'', ''lib''] \<mapsto> Dir,
           [''include'', ''lib'', ''a.inc''] \<mapsto> File ''first, longer'']\<rparr>\<rparr>"
  have "addIncludeFile ?w ''lib/a.inc'' ''first, longer'' = (None, ?w1)"
    by (rule addIncludeFile_example)
  with addIncludeFile_last_write_wins [of ?w "''lib/a.inc''" "''first, longer''" ?w1 "''second''"]
  obtain w2 where "addIncludeFile ?w1 ''lib/a.inc'' ''second'' = (None, w2)"
    and "include_content w2 ''lib/a.inc'' = Some ''second''"
    by blast
  then have a: "include_content
     (snd (addIncludeFile (snd (addIncludeFile ?w ''lib/a.inc'' ''first, longer''))
        ''lib/a.inc'' ''second'')) ''lib/a.inc'' = Some ''second''"
    by (simp add: addIncludeFile_example)
  let ?e = "initial\<lparr>compilerModule := Some \<lparr>FS = Map.empty\<rparr>\<rparr>"
  have dp: "dir_parts ''lib/a.inc'' = [''lib'']"
    by (simp add: dir_parts_def)
  have "mkdir Map.empty (''/include'' @ ''/'' @ ''lib'') = Inl ENOENT
          \<and> \<not> exists_path Map.empty (''/include'' @ ''/'' @ ''lib'')"
    by (simp add: mkdir_no_parent exists_path_def node_at_def resolve_examples)
  with addIncludeFile_last_write_wins
         [where fs = Map.empty and cur = "''/include''" and part = "''lib''" and err = ENOENT
            and parts = "[]"]
  have l: "mkdir_loop Map.empty ''/include'' [''lib''] = (Some ENOENT, Map.empty)"
    by blast
  have "compilerModule ?e = Some \<lparr>FS = Map.empty\<rparr>
          \<and> mkdir_loop (FS \<lparr>FS = Map.empty\<rparr>) ''/include'' (dir_parts ''lib/a.inc'')
               = (Some ENOENT, Map.empty)"
    using l by (simp add: dp)
  with addIncludeFile_last_write_wins
         [where w = ?e and m = "\<lparr>FS = Map.empty\<rparr>" and filename = "''lib/a.inc''"
            and err = ENOENT and fs' = Map.empty and ?c1.0 = "''text''"]
  have "addIncludeFile ?e ''lib/a.inc'' ''text''
          = (Some (ErrnoError ENOENT), set_FS ?e \<lparr>FS = Map.empty\<rparr> Map.empty)"
    by blast
  then have b: "addIncludeFile ?e ''lib/a.inc'' ''text'' = (Some (ErrnoError ENOENT), ?e)"
    by (simp add: set_FS_def)
  from a b show ?thesis by blast
qed


section \<open>Properties of cleanup\<close>







lemma resolve_cleanup_files:
  "resolve ''/input.pwn'' = [''input.pwn'']"
  "resolve ''/output.amx'' = [''output.amx'']"
  "resolve ''/output.txt'' = [''output.txt'']"
  by (simp_all add: resolve_def resolve_step_def)








section \<open>Properties of the lifecycle manager and of compile\<close>

lemma run_snoc: "run (evs @ [e]) w = step (run evs w) e"
  by (simp add: run_def)

lemma run_append: "run (evs @ evs') w = run evs' (run evs w)"
  by (simp add: run_def)

lemma addIncludeFile_flags:
  "compilerReady (snd (addIncludeFile w f c)) = compilerReady w
   \<and> (compilerModule (snd (addIncludeFile w f c)) = None \<longleftrightarrow> compilerModule w = None)
   \<and> readyCallbacks (snd (addIncludeFile w f c)) = readyCallbacks w
   \<and> loading (snd (addIncludeFile w f c)) = loading w
   \<and> promises (snd (addIncludeFile w f c)) = promises w"
  by (cases "compilerModule w")
     (auto simp: addIncludeFile_def Let_def set_FS_def split: prod.splits option.splits sum.splits)

lemma cleanup_flags:
  "compilerReady (snd (cleanup w)) = compilerReady w
   \<and> (compilerModule (snd (cleanup w)) = None \<longleftrightarrow> compilerModule w = None)
   \<and> readyCallbacks (snd (cleanup w)) = readyCallbacks w
   \<and> loading (snd (cleanup w)) = loading w
   \<and> promises (snd (cleanup w)) = promises w"
  by (cases "compilerModule w")
     (auto simp: cleanup_def Let_def set_FS_def split: prod.splits)

lemma step_ready_module:
  assumes "compilerReady w \<longrightarrow> compilerModule w \<noteq> None"
  shows "compilerReady (step w e) \<longrightarrow> compilerModule (step w e) \<noteq> None"
proof (cases e)
  case (Call c)
  with assms show ?thesis by (auto simp: initCompiler_call_def)
next
  case (LoadDone c r)
  with assms show ?thesis
    by (auto simp: initCompiler_resume_def init_failed_def Let_def
             split: load_outcome.splits sum.splits)
next
  case (AddInclude f c)
  with assms show ?thesis by (simp add: addIncludeFile_flags)
next
  case Cleanup
  with assms show ?thesis by (simp add: cleanup_flags)
next
  case (Compiled fs)
  with assms show ?thesis by (auto simp: set_FS_def split: option.splits)
qed

lemma run_ready_module:
  "compilerReady (run evs initial) \<longrightarrow> compilerModule (run evs initial) \<noteq> None"
proof (induction evs rule: rev_induct)
  case Nil
  then show ?case by (simp add: run_def initial_def)
next
  case (snoc e evs)
  then show ?case unfolding run_snoc by (rule step_ready_module)
qed

text \<open>
  Claim C3. In every state that a run reaches, \<^verbatim>\<open>compile\<close> throws the "not
  initialized" error if and only if the lifecycle state is not Ready. In the state Ready it
  always returns a result: when the crossing throws, the result is a failure whose output
  and only error are the text of the thrown value, with no warnings; otherwise it is the
  parsed output.
\<close>

theorem compile_throws_iff_not_ready:
  "(compile ccall (run evs initial) sourceCode options
       = Inl (Error ''Compiler not initialized. Call initCompiler() first.'')
     \<longleftrightarrow> lifecycle (run evs initial) \<noteq> Ready)
   \<and> (lifecycle (run evs initial) = Ready
        \<longrightarrow> (\<exists>result. compile ccall (run evs initial) sourceCode options = Inr result))
   \<and> (lifecycle (run evs initial) = Ready
        \<and> ccall sourceCode (optionsString options) = Inl error
        \<longrightarrow> compile ccall (run evs initial) sourceCode options
              = Inr \<lparr>success = False, output_text = String_of error,
                     errors = [String_of error], warnings = [], amxSize = None\<rparr>)
   \<and> (lifecycle (run evs initial) = Ready
        \<and> ccall sourceCode (optionsString options) = Inr out
        \<longrightarrow> compile ccall (run evs initial) sourceCode options = Inr (parseCompilerOutput out))"
  using run_ready_module [of evs]
  by (auto simp: compile_def lifecycle_def split: sum.splits if_splits)

lemma resolve_include: "resolve ''/include'' = [''include'']"
  by (simp add: resolve_def resolve_step_def)

lemma ready_after_load:
  "run [Call 0, LoadDone 0 (LoadReturns \<lparr>FS = Map.empty\<rparr>)] initial
     = \<lparr>compilerModule = Some \<lparr>FS = [[''include''] \<mapsto> Dir]\<rparr>, compilerReady = True,
        readyCallbacks = [], loading = [], promises = [0 \<mapsto> Fulfilled], fulfilled = [0]\<rparr>"
  by (simp add: run_def initial_def initCompiler_call_def initCompiler_resume_def mkdir_def
        node_at_def resolve_include resolve_all_def)

theorem compile_throws_iff_not_ready_witness:
  "compile (\<lambda>src opts. Inl (Error ''function not found''))
       (run [Call 0, LoadDone 0 (LoadReturns \<lparr>FS = Map.empty\<rparr>)] initial) ''main(){}''
       \<lparr>optimizationLevel = None, debugLevel = None, additionalFlags = None\<rparr>
     = Inr \<lparr>success = False, output_text = ''Error: function not found'',
            errors = [''Error: function not found''], warnings = [], amxSize = None\<rparr>
   \<and> compile (\<lambda>src opts. Inl (Error ''function not found'')) (run [Call 0] initial) ''main(){}''
       \<lparr>optimizationLevel = None, debugLevel = None, additionalFlags = None\<rparr>
     = Inl (Error ''Compiler not initialized. Call initCompiler() first.'')"
proof -
  let ?cc = "\<lambda>(src::string) (opts::string). (Inl (Error ''function not found'') :: js_error + string)"
  let ?o = "\<lparr>optimizationLevel = None, debugLevel = None, additionalFlags = None\<rparr>"
  let ?evs = "[Call 0, LoadDone 0 (LoadReturns \<lparr>FS = Map.empty\<rparr>)]"
  have "lifecycle (run ?evs initial) = Ready"
    by (simp add: ready_after_load lifecycle_def)
  then have a: "compile ?cc (run ?evs initial) ''main(){}'' ?o
     = Inr \<lparr>success = False, output_text = String_of (Error ''function not found''),
            errors = [String_of (Error ''function not found'')], warnings = [], amxSize = None\<rparr>"
    using compile_throws_iff_not_ready
      [of ?cc ?evs "''main(){}''" ?o "Error ''function not found''"]
    by simp
  have "lifecycle (run [Call 0] initial) \<noteq> Ready"
    by (simp add: run_def initial_def initCompiler_call_def lifecycle_def)
  then have "compile ?cc (run [Call 0] initial) ''main(){}'' ?o
     = Inl (Error ''Compiler not initialized. Call initCompiler() first.'')"
    using compile_throws_iff_not_ready [of ?cc "[Call 0]" "''main(){}''" ?o]
    by simp
  with a show ?thesis by simp
qed

lemma stuck_step:
  assumes "stuck w"
  shows "stuck (step w e)"
    and "promises w c = Some Pending \<Longrightarrow> promises (step w e) c = Some Pending"
proof -
  have "stuck (step w e) \<and> (promises w c = Some Pending \<longrightarrow> promises (step w e) c = Some Pending)"
  proof (cases e)
    case (Call c')
    with assms show ?thesis by (auto simp: stuck_def initCompiler_call_def)
  next
    case (LoadDone c' r)
    with assms show ?thesis by (simp add: stuck_def)
  next
    case (AddInclude f x)
    with assms show ?thesis by (simp add: stuck_def addIncludeFile_flags)
  next
    case Cleanup
    with assms show ?thesis by (simp add: stuck_def cleanup_flags)
  next
    case (Compiled fs)
    with assms show ?thesis by (auto simp: stuck_def split: option.splits)
  qed
  then show "stuck (step w e)"
    and "promises w c = Some Pending \<Longrightarrow> promises (step w e) c = Some Pending"
    by blast+
qed

lemma stuck_run:
  "stuck w \<Longrightarrow> stuck (run evs w)
     \<and> (promises w c = Some Pending \<longrightarrow> promises (run evs w) c = Some Pending)"
proof (induction evs rule: rev_induct)
  case Nil
  then show ?case by (simp add: run_def)
next
  case (snoc e evs)
  then show ?case
    unfolding run_snoc using stuck_step by blast
qed

lemma stuck_lifecycle: "stuck w \<Longrightarrow> lifecycle w = Initializing"
  by (simp add: stuck_def lifecycle_def)

lemma mkdir_include_exists:
  "mkdir [[''include''] \<mapsto> Dir] ''/include'' = Inl EEXIST"
  by (simp add: mkdir_def node_at_def resolve_include)

lemma mkdir_include_fresh:
  "mkdir Map.empty ''/include'' = Inr [[''include''] \<mapsto> Dir]"
  by (simp add: mkdir_def node_at_def resolve_include)

lemma failed_mkdir_run:
  "run [Call 0, LoadDone 0 (LoadReturns \<lparr>FS = [[''include''] \<mapsto> Dir]\<rparr>)] initial
     = \<lparr>compilerModule = Some \<lparr>FS = [[''include''] \<mapsto> Dir]\<rparr>, compilerReady = False,
        readyCallbacks = [], loading = [],
        promises = [0 \<mapsto> Rejected ''Compiler initialization failed: ErrnoError: File exists''],
        fulfilled = []\<rparr>"
  by (simp add: run_def initial_def initCompiler_call_def initCompiler_resume_def
        init_failed_def mkdir_include_exists EEXIST_def)

text \<open>
  Claim C2 at the failing input: the load returns a module whose filesystem already has
  \<^verbatim>\<open>/include\<close>, so \<^verbatim>\<open>FS.mkdir\<close> throws after \<^verbatim>\<open>compilerModule\<close> was assigned. The
  state before the call is Uninitialized; after the failure it is Initializing and stays so
  whatever happens next; a later caller is queued, starts no load, and its promise stays
  pending for ever.
\<close>

theorem init_mkdir_failure_stays_initializing:
  "lifecycle initial = Uninitialized
   \<and> run [Call 0, LoadDone 0 (LoadReturns \<lparr>FS = [[''include''] \<mapsto> Dir]\<rparr>)] initial
     = \<lparr>compilerModule = Some \<lparr>FS = [[''include''] \<mapsto> Dir]\<rparr>, compilerReady = False,
        readyCallbacks = [], loading = [],
        promises = [0 \<mapsto> Rejected ''Compiler initialization failed: ErrnoError: File exists''],
        fulfilled = []\<rparr>
   \<and> (\<forall>evs. lifecycle (run ([Call 0, LoadDone 0 (LoadReturns \<lparr>FS = [[''include''] \<mapsto> Dir]\<rparr>)] @ evs)
                          initial) = Initializing)
   \<and> readyCallbacks (run [Call 0, LoadDone 0 (LoadReturns \<lparr>FS = [[''include''] \<mapsto> Dir]\<rparr>), Call 1]
                          initial) = [1]
   \<and> loading (run [Call 0, LoadDone 0 (LoadReturns \<lparr>FS = [[''include''] \<mapsto> Dir]\<rparr>), Call 1]
                   initial) = []
   \<and> (\<forall>evs. promises (run ([Call 0, LoadDone 0 (LoadReturns \<lparr>FS = [[''include''] \<mapsto> Dir]\<rparr>), Call 1]
                             @ evs) initial) 1 = Some Pending)"
proof -
  let ?m = "\<lparr>FS = [[''include''] \<mapsto> Dir]\<rparr>"
  let ?w = "run [Call 0, LoadDone 0 (LoadReturns ?m)] initial"
  have s: "stuck ?w"
    by (simp add: failed_mkdir_run stuck_def)
  have w1: "run [Call 0, LoadDone 0 (LoadReturns ?m), Call 1] initial = step ?w (Call 1)"
    using run_snoc [of "[Call 0, LoadDone 0 (LoadReturns ?m)]" "Call 1" initial] by simp
  have s1: "stuck (step ?w (Call 1))"
    using s by (rule stuck_step)
  have p1: "promises (step ?w (Call 1)) 1 = Some Pending"
    by (simp add: failed_mkdir_run initCompiler_call_def)
  have "lifecycle initial = Uninitialized"
    by (simp add: lifecycle_def initial_def)
  moreover have "\<forall>evs. lifecycle (run ([Call 0, LoadDone 0 (LoadReturns ?m)] @ evs) initial) = Initializing"
    unfolding run_append using s stuck_run stuck_lifecycle by blast
  moreover have "readyCallbacks (run [Call 0, LoadDone 0 (LoadReturns ?m), Call 1] initial) = [1]"
    unfolding w1 by (simp add: failed_mkdir_run initCompiler_call_def)
  moreover have "loading (run [Call 0, LoadDone 0 (LoadReturns ?m), Call 1] initial) = []"
    unfolding w1 by (simp add: failed_mkdir_run initCompiler_call_def)
  moreover have "\<forall>evs. promises (run ([Call 0, LoadDone 0 (LoadReturns ?m), Call 1] @ evs) initial) 1
                    = Some Pending"
    unfolding run_append w1 using s1 p1 stuck_run by blast
  ultimately show ?thesis
    using failed_mkdir_run by blast
qed

lemma overlapping_run:
  "run [Call 0, Call 1] initial
     = \<lparr>compilerModule = None, compilerReady = False, readyCallbacks = [], loading = [0, 1],
        promises = [0 \<mapsto> Pending, 1 \<mapsto> Pending], fulfilled = []\<rparr>"
  by (simp add: run_def initial_def initCompiler_call_def)

lemma overlapping_failed_run:
  "run [Call 0, Call 1, LoadDone 0 (LoadReturns \<lparr>FS = [[''include''] \<mapsto> Dir]\<rparr>), Call 2,
        LoadDone 1 (LoadThrows ''network error'')] initial
     = \<lparr>compilerModule = Some \<lparr>FS = [[''include''] \<mapsto> Dir]\<rparr>, compilerReady = False,
        readyCallbacks = [2], loading = [],
        promises = [0 \<mapsto> Rejected ''Compiler initialization failed: ErrnoError: File exists'',
                    1 \<mapsto> Rejected ''Compiler initialization failed: network error'',
                    2 \<mapsto> Pending],
        fulfilled = []\<rparr>"
  by (simp add: run_def initial_def initCompiler_call_def initCompiler_resume_def
        init_failed_def mkdir_include_exists EEXIST_def fun_upd_twist)

lemma resolve_all_fulfils:
  "cb \<in> set cbs \<Longrightarrow> resolve_all cbs ps cb = Some Fulfilled"
proof -
  have "foldl (\<lambda>m cb. m(cb \<mapsto> Fulfilled)) ps cbs cb
          = (if cb \<in> set cbs then Some Fulfilled else ps cb)" for ps
    by (induction cbs arbitrary: ps) auto
  then show "cb \<in> set cbs \<Longrightarrow> resolve_all cbs ps cb = Some Fulfilled"
    by (simp add: resolve_all_def)
qed

lemma waiters_resumed_in_order:
  assumes "c \<in> set (loading w)" and "mkdir (FS m) ''/include'' = Inr fs'"
  shows "fulfilled (step w (LoadDone c (LoadReturns m))) = fulfilled w @ readyCallbacks w @ [c]"
    and "readyCallbacks (step w (LoadDone c (LoadReturns m))) = []"
    and "lifecycle (step w (LoadDone c (LoadReturns m))) = Ready"
    and "\<forall>cb\<in>set (readyCallbacks w). cb \<noteq> c \<longrightarrow>
           promises (step w (LoadDone c (LoadReturns m))) cb = Some Fulfilled"
  using assms
  by (simp_all add: initCompiler_resume_def Let_def lifecycle_def resolve_all_fulfils)

lemma call_while_initializing_is_queued:
  "lifecycle w = Initializing \<Longrightarrow>
     readyCallbacks (step w (Call c)) = readyCallbacks w @ [c]
     \<and> loading (step w (Call c)) = loading w
     \<and> promises (step w (Call c)) c = Some Pending"
  by (auto simp: lifecycle_def initCompiler_call_def split: if_splits)

lemma call_while_uninitialized_loads:
  "lifecycle w = Uninitialized \<Longrightarrow>
     loading (step w (Call c)) = loading w @ [c]
     \<and> readyCallbacks (step w (Call c)) = readyCallbacks w
     \<and> lifecycle (step w (Call c)) = Uninitialized"
  by (auto simp: lifecycle_def initCompiler_call_def split: if_splits)

lemma load_throws_keeps_state:
  "c \<in> set (loading w) \<Longrightarrow>
     lifecycle (step w (LoadDone c (LoadThrows err))) = lifecycle w
     \<and> readyCallbacks (step w (LoadDone c (LoadThrows err))) = readyCallbacks w
     \<and> promises (step w (LoadDone c (LoadThrows err))) c
         = Some (Rejected (''Compiler initialization failed: '' @ err))"
  by (simp add: initCompiler_resume_def init_failed_def Let_def lifecycle_def)

lemma overlapping_queued_run:
  "run [Call 0, Call 1, LoadDone 0 (LoadReturns \<lparr>FS = [[''include''] \<mapsto> Dir]\<rparr>)] initial
     = \<lparr>compilerModule = Some \<lparr>FS = [[''include''] \<mapsto> Dir]\<rparr>, compilerReady = False,
        readyCallbacks = [], loading = [1],
        promises = [0 \<mapsto> Rejected ''Compiler initialization failed: ErrnoError: File exists'',
                    1 \<mapsto> Pending],
        fulfilled = []\<rparr>"
  by (simp add: run_def initial_def initCompiler_call_def initCompiler_resume_def
        init_failed_def mkdir_include_exists EEXIST_def fun_upd_twist)

text \<open>
  Claim C1 at the failing inputs. A second call that arrives while the first caller's load
  is in flight is not queued: it starts a load of its own. And a caller that is queued
  while the state is Initializing and a load is in flight is not told when that load fails:
  after the run below the two loading callers are rejected, the queued caller 2 is still in
  the queue, and its promise stays pending whatever happens next.
\<close>

theorem overlapping_initialization_not_shared:
  "run [Call 0, Call 1] initial
     = \<lparr>compilerModule = None, compilerReady = False, readyCallbacks = [], loading = [0, 1],
        promises = [0 \<mapsto> Pending, 1 \<mapsto> Pending], fulfilled = []\<rparr>
   \<and> lifecycle (run [Call 0, Call 1, LoadDone 0 (LoadReturns \<lparr>FS = [[''include''] \<mapsto> Dir]\<rparr>)]
                   initial) = Initializing
   \<and> loading (run [Call 0, Call 1, LoadDone 0 (LoadReturns \<lparr>FS = [[''include''] \<mapsto> Dir]\<rparr>)]
                 initial) = [1]
   \<and> run [Call 0, Call 1, LoadDone 0 (LoadReturns \<lparr>FS = [[''include''] \<mapsto> Dir]\<rparr>), Call 2,
          LoadDone 1 (LoadThrows ''network error'')] initial
     = \<lparr>compilerModule = Some \<lparr>FS = [[''include''] \<mapsto> Dir]\<rparr>, compilerReady = False,
        readyCallbacks = [2], loading = [],
        promises = [0 \<mapsto> Rejected ''Compiler initialization failed: ErrnoError: File exists'',
                    1 \<mapsto> Rejected ''Compiler initialization failed: network error'',
                    2 \<mapsto> Pending],
        fulfilled = []\<rparr>
   \<and> (\<forall>evs. promises
          (run ([Call 0, Call 1, LoadDone 0 (LoadReturns \<lparr>FS = [[''include''] \<mapsto> Dir]\<rparr>), Call 2,
                 LoadDone 1 (LoadThrows ''network error'')] @ evs) initial) 2 = Some Pending)"
proof -
  let ?T = "[Call 0, Call 1, LoadDone 0 (LoadReturns \<lparr>FS = [[''include''] \<mapsto> Dir]\<rparr>), Call 2,
             LoadDone 1 (LoadThrows ''network error'')]"
  have s: "stuck (run ?T initial)"
    unfolding overlapping_failed_run by (simp add: stuck_def)
  have p: "promises (run ?T initial) 2 = Some Pending"
    unfolding overlapping_failed_run by simp
  have "\<forall>evs. promises (run (?T @ evs) initial) 2 = Some Pending"
    unfolding run_append using s p stuck_run by blast
  moreover have "lifecycle (run [Call 0, Call 1, LoadDone 0 (LoadReturns \<lparr>FS = [[''include''] \<mapsto> Dir]\<rparr>)]
                   initial) = Initializing"
    unfolding overlapping_queued_run by (simp add: lifecycle_def)
  moreover have "loading (run [Call 0, Call 1, LoadDone 0 (LoadReturns \<lparr>FS = [[''include''] \<mapsto> Dir]\<rparr>)]
                 initial) = [1]"
    unfolding overlapping_queued_run by simp
  ultimately show ?thesis
    using overlapping_run overlapping_failed_run by blast
qed


section \<open>The failing state of cleanup, reached through the interface\<close>

text \<open>
  A directory at the input path, beside a file at the output path, can be produced with
  \<^verbatim>\<open>addIncludeFile\<close> alone, by file names that step out of the include directory;
  \<^verbatim>\<open>cleanup\<close> then reports the error and leaves the output file.
\<close>

lemma resolve_dotdot:
  "resolve ''/include/..'' = []"
  "resolve ''/include/../output.amx'' = [''output.amx'']"
  "resolve ''/include/../input.pwn'' = [''input.pwn'']"
  "resolve ''/include/../input.pwn/x'' = [''input.pwn'', ''x'']"
  by (simp_all add: resolve_def resolve_step_def)

lemma cleanup_abort_reachable:
  "run [Call 0, LoadDone 0 (LoadReturns \<lparr>FS = Map.empty\<rparr>),
        AddInclude ''../output.amx'' ''amx'', AddInclude ''../input.pwn/x'' ''text''] initial
     = \<lparr>compilerModule = Some \<lparr>FS = [[''include''] \<mapsto> Dir, [''output.amx''] \<mapsto> File ''amx'',
                                      [''input.pwn''] \<mapsto> Dir, [''input.pwn'', ''x''] \<mapsto> File ''text'']\<rparr>,
        compilerReady = True, readyCallbacks = [], loading = [],
        promises = [0 \<mapsto> Fulfilled], fulfilled = [0]\<rparr>"
proof -
  let ?w0 = "\<lparr>compilerModule = Some \<lparr>FS = [[''include''] \<mapsto> Dir]\<rparr>, compilerReady = True,
        readyCallbacks = [], loading = [], promises = [0 \<mapsto> Fulfilled], fulfilled = [0]\<rparr>"
  let ?w1 = "\<lparr>compilerModule = Some \<lparr>FS = [[''include''] \<mapsto> Dir, [''output.amx''] \<mapsto> File ''amx'']\<rparr>,
        compilerReady = True,
        readyCallbacks = [], loading = [], promises = [0 \<mapsto> Fulfilled], fulfilled = [0]\<rparr>"
  let ?w2 = "\<lparr>compilerModule = Some \<lparr>FS = [[''include''] \<mapsto> Dir, [''output.amx''] \<mapsto> File ''amx'',
                                      [''input.pwn''] \<mapsto> Dir, [''input.pwn'', ''x''] \<mapsto> File ''text'']\<rparr>,
        compilerReady = True, readyCallbacks = [], loading = [],
        promises = [0 \<mapsto> Fulfilled], fulfilled = [0]\<rparr>"
  have a1: "step ?w0 (AddInclude ''../output.amx'' ''amx'') = ?w1"
    by (simp add: addIncludeFile_def Let_def set_FS_def mkdir_def exists_path_def writeFile_def
          node_at_def resolve_dotdot EEXIST_def)
  have a2: "step ?w1 (AddInclude ''../input.pwn/x'' ''text'') = ?w2"
    by (simp add: addIncludeFile_def Let_def set_FS_def mkdir_def exists_path_def writeFile_def
          node_at_def resolve_dotdot EEXIST_def)
  have "run ([Call 0, LoadDone 0 (LoadReturns \<lparr>FS = Map.empty\<rparr>)]
             @ [AddInclude ''../output.amx'' ''amx'', AddInclude ''../input.pwn/x'' ''text'']) initial
          = run [AddInclude ''../output.amx'' ''amx'', AddInclude ''../input.pwn/x'' ''text''] ?w0"
    unfolding run_append ready_after_load ..
  also have "\<dots> = step (step ?w0 (AddInclude ''../output.amx'' ''amx''))
                       (AddInclude ''../input.pwn/x'' ''text'')"
    by (simp add: run_def)
  also have "\<dots> = ?w2"
    unfolding a1 a2 ..
  finally show ?thesis by simp
qed

lemma cleanup_abort_reachable_result:
  "fst (cleanup (run [Call 0, LoadDone 0 (LoadReturns \<lparr>FS = Map.empty\<rparr>),
        AddInclude ''../output.amx'' ''amx'', AddInclude ''../input.pwn/x'' ''text''] initial))
     = Some EISDIR
   \<and> store_exists (snd (cleanup (run [Call 0, LoadDone 0 (LoadReturns \<lparr>FS = Map.empty\<rparr>),
        AddInclude ''../output.amx'' ''amx'', AddInclude ''../input.pwn/x'' ''text''] initial)))
        ''/output.amx''"
  unfolding cleanup_abort_reachable
  by (simp add: cleanup_def cleanup_files_def store_exists_def exists_path_def unlink_def
        node_at_def resolve_cleanup_files set_FS_def)


section \<open>Properties of getCompiledAMX, before and after a successful compile\<close>

subsection \<open>Printing a number and reading it back\<close>








subsection \<open>The three messages of pawncl_compile and the message of the failed open\<close>






subsection \<open>Paths inside the include directory\<close>











subsection \<open>What pawncl_compile returns\<close>



lemma fopen_write_other:
  "fopen_write fs ''/input.pwn'' text = Some fs1 \<Longrightarrow>
     exists_path fs1 ''/output.amx'' = exists_path fs ''/output.amx''"
  by (auto simp: fopen_write_def exists_path_def node_at_def resolve_cleanup_files
           split: sum.splits dest!: writeFile_Inr(1))






subsection \<open>Nothing at the output path before a successful compile\<close>









subsection \<open>The claim\<close>












end
